theory Spec2Isabelle
  imports Main "HOL-Library.Word"
begin

unbundle bit_operations_syntax

section \<open>Results of Go calls\<close>

text \<open>
  A Go function of this package either returns (a value, or an error value) or panics.
  Both ways of not delivering a value are written as the left injection of a sum:
  \<open>Inl RuntimePanic\<close> is a Go run-time panic (slice bounds out of range, a negative
  capacity given to \<open>make\<close>, the explicit \<open>panic\<close> of \<open>UARTKey.ToRank\<close>); every
  other \<open>Inl e\<close> is an error value handed back to the caller.
\<close>

datatype error =
    RuntimePanic
  | ErrSyntax
  | ErrRange
  | ErrRankNotAllowed
  | ErrBadFormat
  | ErrCouldNotParse
  | ErrUnsupportedMode
  | ErrUnsupportedModeFormat
  | ErrUARTTypeNotSupported
  | ErrKeyNotSupported
  | ErrPortAndIrq
  | ErrScanf
  | ErrPortCount
  | ErrControllerTypeNotSupported
  | ErrDHCPAlreadyParsed
  | ErrParseCIDR
  | ErrTooLong

section \<open>Command argument builder (natnet.go, second file part: CmdArg, CmdArgs)\<close>

record CmdArg =
  K :: string
  V :: "string option"
  ToCmdArgParts :: "(string \<Rightarrow> string \<Rightarrow> string list) option"
  Del :: bool

record CmdArgs =
  args :: "CmdArg list"
  overrides :: "CmdArg list"

definition NewCmdArgNoValue :: "string \<Rightarrow> CmdArg" where
  "NewCmdArgNoValue k = \<lparr>K = k, V = None, ToCmdArgParts = None, Del = False\<rparr>"

definition NewCmdArg :: "string \<Rightarrow> string \<Rightarrow> CmdArg" where
  "NewCmdArg k v = \<lparr>K = k, V = Some v, ToCmdArgParts = None, Del = False\<rparr>"

definition NewCmdArgDeleted :: "string \<Rightarrow> CmdArg" where
  "NewCmdArgDeleted k = \<lparr>K = k, V = None, ToCmdArgParts = None, Del = True\<rparr>"

definition AppendNoValue :: "CmdArgs \<Rightarrow> string \<Rightarrow> CmdArgs" where
  "AppendNoValue cmdArgs key = cmdArgs\<lparr>args := args cmdArgs @ [NewCmdArgNoValue key]\<rparr>"

definition Append :: "CmdArgs \<Rightarrow> string \<Rightarrow> string \<Rightarrow> CmdArgs" where
  "Append cmdArgs key val = cmdArgs\<lparr>args := args cmdArgs @ [NewCmdArg key val]\<rparr>"

definition AppendCmdArgs :: "CmdArgs \<Rightarrow> CmdArg list \<Rightarrow> CmdArgs" where
  "AppendCmdArgs cmdArgs arg =
     (if arg = [] then cmdArgs else cmdArgs\<lparr>args := args cmdArgs @ arg\<rparr>)"

definition AppendOverride :: "CmdArgs \<Rightarrow> CmdArg list \<Rightarrow> CmdArgs" where
  "AppendOverride cmdArgs arg =
     (if arg = [] then cmdArgs else cmdArgs\<lparr>overrides := overrides cmdArgs @ arg\<rparr>)"

text \<open>
  \<open>Args\<close>, first loop: one pass over a sequence of arguments. The state is the map
  \<open>m\<close> from key to the argument object stored last and \<open>orderK\<close>, the keys in the
  order in which they were first seen.
\<close>

fun collect :: "CmdArg list \<Rightarrow> (string \<rightharpoonup> CmdArg) \<times> string list
    \<Rightarrow> (string \<rightharpoonup> CmdArg) \<times> string list" where
  "collect [] st = st"
| "collect (arg # rest) (m, orderK) =
     collect rest (m(K arg \<mapsto> arg), if m (K arg) = None then orderK @ [K arg] else orderK)"

text \<open>The outer loop runs over \<open>cmdArgs.args\<close>, then over \<open>cmdArgs.overrides\<close>.\<close>

definition collectAll :: "CmdArgs \<Rightarrow> (string \<rightharpoonup> CmdArg) \<times> string list" where
  "collectAll cmdArgs = collect (overrides cmdArgs) (collect (args cmdArgs) (Map.empty, []))"

text \<open>
  A Go map read \<open>m[k]\<close> of a missing key gives the zero value of the element type.
\<close>

definition zeroCmdArg :: CmdArg where
  "zeroCmdArg = \<lparr>K = [], V = None, ToCmdArgParts = None, Del = False\<rparr>"

definition lookupArg :: "(string \<rightharpoonup> CmdArg) \<Rightarrow> string \<Rightarrow> CmdArg" where
  "lookupArg m k = (case m k of None \<Rightarrow> zeroCmdArg | Some arg \<Rightarrow> arg)"

text \<open>The tokens one surviving argument contributes (the body of the second loop).\<close>

definition argParts :: "CmdArg \<Rightarrow> string list" where
  "argParts arg =
     (case V arg of
        None \<Rightarrow> [K arg]
      | Some v \<Rightarrow>
          (case ToCmdArgParts arg of
             None \<Rightarrow> [K arg, v]
           | Some f \<Rightarrow> f (K arg) v))"

text \<open>\<open>Args\<close>, second loop: walk \<open>orderK\<close>, skip deleted arguments, append the rest.\<close>

fun emit :: "(string \<rightharpoonup> CmdArg) \<Rightarrow> string list \<Rightarrow> string list" where
  "emit m [] = []"
| "emit m (k # ks) =
     (if Del (lookupArg m k) then emit m ks else argParts (lookupArg m k) @ emit m ks)"

definition Args :: "CmdArgs \<Rightarrow> string list" where
  "Args cmdArgs = (case collectAll cmdArgs of (m, orderK) \<Rightarrow> emit m orderK)"

text \<open>
  Notions the statements about \<open>Args\<close> use: the argument object that is stored for a key
  when the first loop is over, and the keys whose stored object is not deleted, in
  emission order.
\<close>

definition winner :: "CmdArgs \<Rightarrow> string \<Rightarrow> CmdArg" where
  "winner cmdArgs k = lookupArg (fst (collectAll cmdArgs)) k"

definition emittedKeys :: "CmdArgs \<Rightarrow> string list" where
  "emittedKeys cmdArgs =
     filter (\<lambda>k. \<not> Del (winner cmdArgs k)) (snd (collectAll cmdArgs))"

text \<open>
  A sequence of calls on a \<open>CmdArgs\<close> value, for statements about every order of calls.
\<close>

datatype call =
    CallAppend string string
  | CallAppendNoValue string
  | CallAppendCmdArgs "CmdArg list"
  | CallAppendOverride "CmdArg list"

fun applyCall :: "CmdArgs \<Rightarrow> call \<Rightarrow> CmdArgs" where
  "applyCall c (CallAppend k v) = Append c k v"
| "applyCall c (CallAppendNoValue k) = AppendNoValue c k"
| "applyCall c (CallAppendCmdArgs as) = AppendCmdArgs c as"
| "applyCall c (CallAppendOverride as) = AppendOverride c as"

definition runCalls :: "call list \<Rightarrow> CmdArgs" where
  "runCalls calls = foldl applyCall \<lparr>args = [], overrides = []\<rparr> calls"

text \<open>The base entries and the override entries of a call sequence, in call order.\<close>

fun baseEntries :: "call \<Rightarrow> CmdArg list" where
  "baseEntries (CallAppend k v) = [NewCmdArg k v]"
| "baseEntries (CallAppendNoValue k) = [NewCmdArgNoValue k]"
| "baseEntries (CallAppendCmdArgs as) = as"
| "baseEntries (CallAppendOverride as) = []"

fun overrideEntries :: "call \<Rightarrow> CmdArg list" where
  "overrideEntries (CallAppendOverride as) = as"
| "overrideEntries _ = []"

section \<open>Feature toggles (machine file: Flag, bool2string, Flag.Get, Machine.Modify)\<close>

text \<open>\<open>Flag\<close> is a Go \<open>int\<close>: 64 bits on the platforms VirtualBox runs on.\<close>

type_synonym Flag = "64 word"

definition SYNTHCPU :: Flag where "SYNTHCPU = push_bit 6 1"
definition X2APIC :: Flag where "X2APIC = push_bit 16 1"




section \<open>Go library functions the codecs call\<close>

text \<open>
  \<open>strings.Split(s, sep)\<close> for a separator of one byte: the pieces between the
  separators, always at least one piece.
\<close>

fun splitOn :: "char \<Rightarrow> string \<Rightarrow> string list" where
  "splitOn sep [] = [[]]"
| "splitOn sep (c # cs) =
     (if c = sep then [] # splitOn sep cs
      else (case splitOn sep cs of
              [] \<Rightarrow> [[c]]
            | piece # pieces \<Rightarrow> (c # piece) # pieces))"

text \<open>
  Formatting of unsigned numbers: \<open>fmtBase b n\<close> are the digits of \<open>n\<close> in base \<open>b\<close>
  (lower case, at least one digit), \<open>fmtDec\<close> is the verb \<open>%d\<close> (and \<open>strconv.Itoa\<close>)
  on a number that is not negative, \<open>fmtHex04\<close> is the verb \<open>%04x\<close>: zeros in front up
  to a width of four.
\<close>

definition digitChar :: "nat \<Rightarrow> char" where
  "digitChar d = ''0123456789abcdef'' ! d"

function fmtBase :: "nat \<Rightarrow> nat \<Rightarrow> string" where
  "fmtBase b n =
     (if b < 2 \<or> n < b then [digitChar n]
      else fmtBase b (n div b) @ [digitChar (n mod b)])"
  by pat_completeness auto
termination
  by (relation "measure (\<lambda>(b, n). n)") auto

declare fmtBase.simps [simp del]

definition fmtDec :: "nat \<Rightarrow> string" where
  "fmtDec n = fmtBase 10 n"

definition fmtHex04 :: "nat \<Rightarrow> string" where
  "fmtHex04 n = replicate (4 - length (fmtBase 16 n)) (CHR ''0'') @ fmtBase 16 n"

text \<open>
  \<open>strconv.ParseUint(s, base, bitSize)\<close> for an explicit base between 2 and 36: the
  empty string, a byte that is no digit and a digit not below the base are syntax errors;
  a value above \<open>2 ^ bitSize - 1\<close> is a range error; the bytes are read left to right
  and the first failure is returned. \<open>digitVal\<close> is the digit of a byte, as the source's
  \<open>lower(c) = c | ('x' - 'X')\<close> computes it.
\<close>

definition digitVal :: "char \<Rightarrow> nat option" where
  "digitVal c =
     (let n = (of_char c :: nat) in
      if 48 \<le> n \<and> n \<le> 57 then Some (n - 48)
      else if 97 \<le> (n OR 32) \<and> (n OR 32) \<le> 122 then Some ((n OR 32) - 97 + 10)
      else None)"

fun parseDigits :: "nat \<Rightarrow> nat \<Rightarrow> nat \<Rightarrow> string \<Rightarrow> error + nat" where
  "parseDigits base maxVal n [] = Inr n"
| "parseDigits base maxVal n (c # cs) =
     (case digitVal c of
        None \<Rightarrow> Inl ErrSyntax
      | Some d \<Rightarrow>
          if base \<le> d then Inl ErrSyntax
          else if maxVal < n * base + d then Inl ErrRange
          else parseDigits base maxVal (n * base + d) cs)"

definition ParseUint :: "string \<Rightarrow> nat \<Rightarrow> nat \<Rightarrow> error + nat" where
  "ParseUint s base bitSize =
     (if s = [] then Inl ErrSyntax else parseDigits base (2 ^ bitSize - 1) 0 s)"

text \<open>
  \<open>strconv.Atoi\<close>: an optional sign, then decimal digits; the result is a Go \<open>int\<close>
  (64 bits).
\<close>

definition Atoi :: "string \<Rightarrow> error + int" where
  "Atoi s =
     (case s of
        [] \<Rightarrow> Inl ErrSyntax
      | c # cs \<Rightarrow>
          (let neg = (c = CHR ''-'');
               digits = (if c = CHR ''-'' \<or> c = CHR ''+'' then cs else s)
           in case ParseUint digits 10 64 of
                Inl e \<Rightarrow> Inl e
              | Inr un \<Rightarrow>
                  if \<not> neg \<and> 2 ^ 63 \<le> un then Inl ErrRange
                  else if neg \<and> 2 ^ 63 < un then Inl ErrRange
                  else Inr (if neg then - int un else int un)))"

section \<open>UART codec (uart.go)\<close>

type_synonym UARTKey = string
type_synonym UARTType = string
type_synonym UARTMode = string

definition UART1 :: UARTKey where "UART1 = ''uart1''"
definition UART2 :: UARTKey where "UART2 = ''uart2''"
definition UART3 :: UARTKey where "UART3 = ''uart3''"
definition UART4 :: UARTKey where "UART4 = ''uart4''"

definition IsSupportedKey :: "UARTKey \<Rightarrow> bool" where
  "IsSupportedKey key = (key = UART1 \<or> key = UART2 \<or> key = UART3 \<or> key = UART4)"

definition ToRank :: "UARTKey \<Rightarrow> error + nat" where
  "ToRank key =
     (if key = UART1 then Inr 1
      else if key = UART2 then Inr 2
      else if key = UART3 then Inr 3
      else if key = UART4 then Inr 4
      else Inl RuntimePanic)"

definition UARTKeyFromRank :: "nat \<Rightarrow> error + UARTKey" where
  "UARTKeyFromRank rank =
     (if rank = 1 then Inr UART1
      else if rank = 2 then Inr UART2
      else if rank = 3 then Inr UART3
      else if rank = 4 then Inr UART4
      else Inl ErrRankNotAllowed)"

text \<open>\<open>Port\<close> and \<open>IRQ\<close> are Go \<open>uint\<close>: 64 bits.\<close>

record BasicSerialComConfig =
  Port :: "64 word"
  IRQ :: "64 word"

definition PortAsIoBaseHexString :: "BasicSerialComConfig \<Rightarrow> string" where
  "PortAsIoBaseHexString cc = ''0x'' @ fmtHex04 (unat (Port cc))"

definition IRQAsString :: "BasicSerialComConfig \<Rightarrow> string" where
  "IRQAsString cc = fmtDec (unat (IRQ cc))"

definition COM1 :: BasicSerialComConfig where "COM1 = \<lparr>Port = 0x3F8, IRQ = 4\<rparr>"
definition COM2 :: BasicSerialComConfig where "COM2 = \<lparr>Port = 0x2F8, IRQ = 3\<rparr>"
definition COM3 :: BasicSerialComConfig where "COM3 = \<lparr>Port = 0x3E8, IRQ = 4\<rparr>"
definition COM4 :: BasicSerialComConfig where "COM4 = \<lparr>Port = 0x2E8, IRQ = 3\<rparr>"

text \<open>
  \<open>toVMInfoValueUARTn\<close> (the helper of the UART tests): the value of \<open>uart<N>\<close> in the
  machine-readable dump, \<open>0x%04x,%d\<close>.
\<close>

definition toVMInfoValueUARTn :: "BasicSerialComConfig \<Rightarrow> string" where
  "toVMInfoValueUARTn comConfig =
     ''0x'' @ fmtHex04 (unat (Port comConfig)) @ '','' @ fmtDec (unat (IRQ comConfig))"

text \<open>
  \<open>initFromVMInfoValue\<close>. The slice expression \<open>splits[0][2:]\<close> panics when the first
  piece has fewer than two bytes; the two bytes it drops are not looked at.
\<close>

definition initFromVMInfoValue :: "BasicSerialComConfig \<Rightarrow> string \<Rightarrow> error + BasicSerialComConfig" where
  "initFromVMInfoValue cc vmInfoValue =
     (let splits = splitOn (CHR '','') vmInfoValue in
      if length splits \<noteq> 2 then Inl ErrBadFormat
      else if length (splits ! 0) < 2 then Inl RuntimePanic
      else (case ParseUint (drop 2 (splits ! 0)) 16 64 of
              Inl errIOBase \<Rightarrow> Inl ErrCouldNotParse
            | Inr ioBase \<Rightarrow>
                (case ParseUint (splits ! 1) 10 32 of
                   Inl errIRQ \<Rightarrow> Inl ErrCouldNotParse
                 | Inr irq \<Rightarrow> Inr (cc\<lparr>Port := of_nat ioBase, IRQ := of_nat irq\<rparr>))))"

definition UARTT16450 :: UARTType where "UARTT16450 = ''16450''"
definition UARTT16550A :: UARTType where "UARTT16550A = ''16550A''"
definition UARTT16750 :: UARTType where "UARTT16750 = ''16750''"
definition UARTTDefault :: UARTType where "UARTTDefault = UARTT16550A"

definition IsSupportedUARTType :: "UARTType \<Rightarrow> bool" where
  "IsSupportedUARTType uartType =
     (uartType = UARTT16450 \<or> uartType = UARTT16550A \<or> uartType = UARTT16750)"


definition UARTModeServer :: UARTMode where "UARTModeServer = ''server''"
definition UARTModeClient :: UARTMode where "UARTModeClient = ''client''"
definition UARTModeTCPServer :: UARTMode where "UARTModeTCPServer = ''tcpserver''"
definition UARTModeTCPClient :: UARTMode where "UARTModeTCPClient = ''tcpclient''"
definition UARTModeFile :: UARTMode where "UARTModeFile = ''file''"
definition UARTModeDisconnected :: UARTMode where "UARTModeDisconnected = ''disconnected''"


record UART =
  ComConfig :: BasicSerialComConfig
  Type :: UARTType
  Mode :: UARTMode
  ModeData :: string
  Key :: UARTKey

definition UARTOffFromKey :: "UARTKey \<Rightarrow> UART" where
  "UARTOffFromKey key =
     \<lparr>ComConfig = \<lparr>Port = 0, IRQ = 0\<rparr>, Type = [], Mode = [], ModeData = [], Key = key\<rparr>"

definition IsOff :: "UART \<Rightarrow> bool" where
  "IsOff uart = (\<lparr>Port = 0, IRQ = 0\<rparr> = ComConfig uart)"

text \<open>
  The three command fragments of one UART, each a pair of a command name and a command
  value; an empty name stands for no fragment. \<open>ToRank\<close> panics on a key that is not
  one of the four.
\<close>

definition commandParameterUartN :: "UART \<Rightarrow> error + string \<times> string" where
  "commandParameterUartN uart =
     (case ToRank (Key uart) of
        Inl e \<Rightarrow> Inl e
      | Inr rank \<Rightarrow>
          if IsOff uart then Inr (''--uart'' @ fmtDec rank, ''off'')
          else Inr (''--uart'' @ fmtDec rank,
                    ''0x'' @ fmtHex04 (unat (Port (ComConfig uart))) @ '' ''
                      @ fmtDec (unat (IRQ (ComConfig uart)))))"

definition commandParameterUARTModeN :: "UART \<Rightarrow> error + string \<times> string" where
  "commandParameterUARTModeN uart =
     (if IsOff uart then Inr ([], [])
      else (case ToRank (Key uart) of
              Inl e \<Rightarrow> Inl e
            | Inr rank \<Rightarrow>
                if Mode uart = UARTModeDisconnected
                then Inr (''--uartmode'' @ fmtDec rank, UARTModeDisconnected)
                else Inr (''--uartmode'' @ fmtDec rank, Mode uart @ '' '' @ ModeData uart)))"

definition commandParameterUARTTypeN :: "UART \<Rightarrow> error + string \<times> string" where
  "commandParameterUARTTypeN uart =
     (if IsOff uart then Inr ([], [])
      else (case ToRank (Key uart) of
              Inl e \<Rightarrow> Inl e
            | Inr rank \<Rightarrow> Inr (''--uarttype'' @ fmtDec rank, Type uart)))"

text \<open>
  \<open>commandParameters\<close>: the loop over the three fragment functions; a fragment with a
  name contributes the name and the pieces of the value between blanks.
\<close>

fun commandsLoop :: "(error + string \<times> string) list \<Rightarrow> string list \<Rightarrow> error + string list" where
  "commandsLoop [] commands = Inr commands"
| "commandsLoop (Inl e # rest) commands = Inl e"
| "commandsLoop (Inr (cmdName, cmdValue) # rest) commands =
     (if cmdName \<noteq> []
      then commandsLoop rest (commands @ [cmdName] @ splitOn (CHR '' '') cmdValue)
      else commandsLoop rest commands)"

definition commandParameters :: "UART \<Rightarrow> error + string list" where
  "commandParameters uart =
     commandsLoop
       [commandParameterUartN uart, commandParameterUARTModeN uart, commandParameterUARTTypeN uart]
       []"

text \<open>\<open>ModifyVMCommandParameters\<close>: the fragments of all UARTs, in order.\<close>

fun ModifyVMCommandParameters :: "UART list \<Rightarrow> error + string list" where
  "ModifyVMCommandParameters [] = Inr []"
| "ModifyVMCommandParameters (uartn # uarts) =
     (case commandParameters uartn of
        Inl e \<Rightarrow> Inl e
      | Inr cmdParamsUARTn \<Rightarrow>
          (case ModifyVMCommandParameters uarts of
             Inl e \<Rightarrow> Inl e
           | Inr cmdParams \<Rightarrow> Inr (cmdParamsUARTn @ cmdParams)))"

text \<open>The parse path: \<open>NewUARTs\<close> and the two functions it calls per slot.\<close>

definition initUARTModeFromVMInfoMap :: "UART \<Rightarrow> (string \<rightharpoonup> string) \<Rightarrow> error + UART" where
  "initUARTModeFromVMInfoMap uart vmPropMap =
     (case ToRank (Key uart) of
        Inl e \<Rightarrow> Inl e
      | Inr rank \<Rightarrow>
          (case vmPropMap (''uartmode'' @ fmtDec rank) of
             None \<Rightarrow> Inr uart
           | Some modeStrValue \<Rightarrow>
               if UARTModeDisconnected = modeStrValue
               then Inr (uart\<lparr>Mode := UARTModeDisconnected\<rparr>)
               else (let modeStartValueSplits = splitOn (CHR '','') modeStrValue in
                     if length modeStartValueSplits = 2
                     then (let mode = modeStartValueSplits ! 0 in
                           if mode = UARTModeClient \<or> mode = UARTModeDisconnected
                              \<or> mode = UARTModeFile \<or> mode = UARTModeServer
                              \<or> mode = UARTModeTCPClient \<or> mode = UARTModeTCPServer
                           then Inr (uart\<lparr>Mode := mode, ModeData := modeStartValueSplits ! 1\<rparr>)
                           else Inl ErrUnsupportedMode)
                     else Inl ErrUnsupportedModeFormat)))"

definition initUARTTypeFromVMInfoMap :: "UART \<Rightarrow> (string \<rightharpoonup> string) \<Rightarrow> error + UART" where
  "initUARTTypeFromVMInfoMap uart vmPropMap =
     (case ToRank (Key uart) of
        Inl e \<Rightarrow> Inl e
      | Inr rank \<Rightarrow>
          (case vmPropMap (''uarttype'' @ fmtDec rank) of
             None \<Rightarrow> Inr uart
           | Some typeValue \<Rightarrow>
               if \<not> IsSupportedUARTType typeValue then Inl ErrUARTTypeNotSupported
               else Inr (uart\<lparr>Type := typeValue\<rparr>)))"

text \<open>The body of the loop of \<open>NewUARTs\<close> for slot \<open>i\<close>.\<close>

definition newUARTn :: "(string \<rightharpoonup> string) \<Rightarrow> nat \<Rightarrow> error + UART" where
  "newUARTn vmPropMap i =
     (case UARTKeyFromRank i of
        Inl e \<Rightarrow> Inl e
      | Inr key \<Rightarrow>
          (let uart = UARTOffFromKey key in
           case vmPropMap (Key uart) of
             None \<Rightarrow> Inr uart
           | Some uartI \<Rightarrow>
               if uartI \<noteq> ''off''
               then (case initFromVMInfoValue (ComConfig uart) uartI of
                       Inl e \<Rightarrow> Inl e
                     | Inr cc \<Rightarrow>
                         (case initUARTModeFromVMInfoMap (uart\<lparr>ComConfig := cc\<rparr>) vmPropMap of
                            Inl e \<Rightarrow> Inl e
                          | Inr uart' \<Rightarrow> initUARTTypeFromVMInfoMap uart' vmPropMap))
               else Inr uart))"

fun uartsLoop :: "(string \<rightharpoonup> string) \<Rightarrow> nat list \<Rightarrow> UART list \<Rightarrow> error + UART list" where
  "uartsLoop vmPropMap [] uarts = Inr uarts"
| "uartsLoop vmPropMap (i # is) uarts =
     (case newUARTn vmPropMap i of
        Inl e \<Rightarrow> Inl e
      | Inr uart \<Rightarrow> uartsLoop vmPropMap is (uarts @ [uart]))"

definition NewUARTs :: "(string \<rightharpoonup> string) \<Rightarrow> error + UART list" where
  "NewUARTs vmPropMap = uartsLoop vmPropMap [1, 2, 3, 4] []"



text \<open>
  The two key/value renderings of one UART that the round trip can be read with.
  \<open>commandPairs\<close>: the pairs of command name and command value that the three fragment
  functions return (the input of the loop of \<open>commandParameters\<close>; a fragment without a
  name or a panic gives no pair). \<open>vmInfoPairs\<close>: the properties of the machine-readable
  dump that the parse path reads, \<open>uart<N>\<close> as \<open>toVMInfoValueUARTn\<close> writes it,
  \<open>uartmode<N>\<close> as \<open>disconnected\<close> or as mode, comma, mode data, \<open>uarttype<N>\<close> as
  the type (the formats the comments of \<open>initUARTModeFromVMInfoMap\<close> and the tests show:
  \<open>uartmode1="file,/tmp/ubuntu-focal-1"\<close>, \<open>uartmode4="disconnected"\<close>,
  \<open>uarttype4="16550A"\<close>). The source has no function that writes the dump; the external
  tool does.
\<close>

definition commandPairs :: "UART \<Rightarrow> (string \<times> string) list" where
  "commandPairs uart =
     concat (map (\<lambda>r. case r of
                         Inl e \<Rightarrow> []
                       | Inr (cmdName, cmdValue) \<Rightarrow> if cmdName \<noteq> [] then [(cmdName, cmdValue)] else [])
       [commandParameterUartN uart, commandParameterUARTModeN uart, commandParameterUARTTypeN uart])"

definition vmInfoPairs :: "UART \<Rightarrow> (string \<times> string) list" where
  "vmInfoPairs uart =
     [(Key uart, toVMInfoValueUARTn (ComConfig uart)),
      (''uartmode'' @ drop 4 (Key uart),
         if Mode uart = UARTModeDisconnected then UARTModeDisconnected
         else Mode uart @ '','' @ ModeData uart),
      (''uarttype'' @ drop 4 (Key uart), Type uart)]"

section \<open>Storage controller codec (uart.go, second file part)\<close>

type_synonym SystemBus = string
type_synonym StorageControllerChipset = string
type_synonym DriveType = string

definition SysBusIDE :: SystemBus where "SysBusIDE = ''ide''"
definition SysBusSATA :: SystemBus where "SysBusSATA = ''sata''"
definition SysBusSCSI :: SystemBus where "SysBusSCSI = ''scsi''"
definition SysBusFloppy :: SystemBus where "SysBusFloppy = ''floppy''"
definition SysBusSAS :: SystemBus where "SysBusSAS = ''sas''"
definition SysBusUSB :: SystemBus where "SysBusUSB = ''usb''"
definition SysBusPCI :: SystemBus where "SysBusPCI = ''pcie''"
definition SysBusVirtioSCSI :: SystemBus where "SysBusVirtioSCSI = ''virtio''"

definition CtrlLSILogic :: StorageControllerChipset where "CtrlLSILogic = ''LSILogic''"
definition CtrlLSILogicSAS :: StorageControllerChipset where "CtrlLSILogicSAS = ''LSILogicSAS''"
definition CtrlBusLogic :: StorageControllerChipset where "CtrlBusLogic = ''BusLogic''"
definition CtrlIntelAHCI :: StorageControllerChipset where "CtrlIntelAHCI = ''IntelAHCI''"
definition CtrlPIIX3 :: StorageControllerChipset where "CtrlPIIX3 = ''PIIX3''"
definition CtrlPIIX4 :: StorageControllerChipset where "CtrlPIIX4 = ''PIIX4''"
definition CtrlICH6 :: StorageControllerChipset where "CtrlICH6 = ''ICH6''"
definition CtrlI82078 :: StorageControllerChipset where "CtrlI82078 = ''I82078''"
definition CtlrUSB :: StorageControllerChipset where "CtlrUSB = ''USB''"
definition CtlrNVMe :: StorageControllerChipset where "CtlrNVMe = ''NVMe''"
definition CtrlVirtioSCSI :: StorageControllerChipset where "CtrlVirtioSCSI = ''VirtIO''"

text \<open>
  \<open>StorageMedium\<close>; its fields \<open>Port\<close> and \<open>Device\<close> are written \<open>PortSM\<close> and
  \<open>DeviceSM\<close> here (\<open>Port\<close> is the field of \<open>BasicSerialComConfig\<close>).
\<close>

record StorageMedium =
  PortSM :: "64 word"
  DeviceSM :: "64 word"
  DriveTypeSM :: DriveType
  Medium :: string
  UUID :: string

record StorageController =
  Name :: string
  SysBus :: SystemBus
  Ports :: "64 word"
  Chipset :: StorageControllerChipset
  HostIOCache :: bool
  Bootable :: bool
  Devices :: "StorageMedium list"

definition IsNone :: "StorageMedium \<Rightarrow> bool" where
  "IsNone sm = (UUID sm = [] \<and> Medium sm = ''none'')"

text \<open>A Go map read \<open>m[k]\<close> of a string map: the empty string for a missing key.\<close>

definition getStr :: "(string \<rightharpoonup> string) \<Rightarrow> string \<Rightarrow> string" where
  "getStr m k = (case m k of None \<Rightarrow> [] | Some v \<Rightarrow> v)"

definition maxDevicePerPort :: "SystemBus \<Rightarrow> nat" where
  "maxDevicePerPort bus = (if bus = SysBusIDE \<or> bus = SysBusFloppy then 2 else 1)"

definition vmInfogStrorageControllerTypeToBusAndChipset ::
    "string \<Rightarrow> error + SystemBus \<times> StorageControllerChipset" where
  "vmInfogStrorageControllerTypeToBusAndChipset scType =
     (if scType = ''IntelAhci'' then Inr (SysBusSATA, CtrlIntelAHCI)
      else if scType = ''LsiLogic'' then Inr (SysBusSCSI, CtrlLSILogic)
      else if scType = ''BusLogic'' then Inr (SysBusSCSI, CtrlBusLogic)
      else if scType = ''PIIX3'' then Inr (SysBusIDE, CtrlPIIX3)
      else if scType = ''PIIX4'' then Inr (SysBusIDE, CtrlPIIX4)
      else if scType = ''ICH6'' then Inr (SysBusIDE, CtrlICH6)
      else if scType = ''I82078'' then Inr (SysBusFloppy, CtrlI82078)
      else if scType = ''LsiLogicSas'' then Inr (SysBusSAS, CtrlLSILogicSAS)
      else if scType = ''USB'' then Inr (SysBusUSB, CtlrUSB)
      else if scType = ''NVMe'' then Inr (SysBusPCI, CtlrNVMe)
      else if scType = ''VirtioSCSI'' then Inr (SysBusVirtioSCSI, CtrlVirtioSCSI)
      else if scType = ''unknown'' then Inr (scType, scType)
      else Inl ErrControllerTypeNotSupported)"

text \<open>
  \<open>findStorageMedia\<close>. The medium of one port and device, if the property is there and
  is not the none medium; then the two loops, port-major. \<open>portCount\<close> is a Go \<open>int\<close>
  (64 bits): the capacity \<open>portCount*2\<close> given to \<open>make\<close> wraps around, and \<open>make\<close>
  panics on a negative capacity. Memory is taken as unbounded: \<open>make\<close> with a capacity
  that is not negative succeeds.
\<close>

definition mediumAt :: "string \<Rightarrow> (string \<rightharpoonup> string) \<Rightarrow> nat \<Rightarrow> nat \<Rightarrow> StorageMedium list" where
  "mediumAt name vmPropMap p d =
     (let indexSuffix = ''-'' @ fmtDec p @ ''-'' @ fmtDec d in
      case vmPropMap (name @ indexSuffix) of
        None \<Rightarrow> []
      | Some medium \<Rightarrow>
          (let sm = \<lparr>PortSM = of_nat p, DeviceSM = of_nat d, DriveTypeSM = [], Medium = medium,
                      UUID = getStr vmPropMap (name @ ''-ImageUUID'' @ indexSuffix)\<rparr>
           in if \<not> IsNone sm then [sm] else []))"

definition findStorageMedia ::
    "string \<Rightarrow> SystemBus \<Rightarrow> int \<Rightarrow> (string \<rightharpoonup> string) \<Rightarrow> error + StorageMedium list" where
  "findStorageMedia name bus portCount vmPropMap =
     (if sint (word_of_int (portCount * 2) :: 64 word) < 0 then Inl RuntimePanic
      else Inr (concat (map (\<lambda>p. concat (map (\<lambda>d. mediumAt name vmPropMap p d)
                                              [0 ..< maxDevicePerPort bus]))
                         [0 ..< nat portCount])))"

definition findStorageControllerByIndex ::
    "string \<Rightarrow> string \<Rightarrow> (string \<rightharpoonup> string) \<Rightarrow> error + StorageController" where
  "findStorageControllerByIndex name iStr vmPropMap =
     (let scType = getStr vmPropMap (''storagecontrollertype'' @ iStr);
          portCountStr = getStr vmPropMap (''storagecontrollerportcount'' @ iStr)
      in case Atoi portCountStr of
           Inl err \<Rightarrow> Inl ErrPortCount
         | Inr portCount \<Rightarrow>
             (let bootableStr = getStr vmPropMap (''storagecontrollerbootable'' @ iStr)
              in case vmInfogStrorageControllerTypeToBusAndChipset scType of
                   Inl err \<Rightarrow> Inl err
                 | Inr (bus, chipSet) \<Rightarrow>
                     (case findStorageMedia name bus portCount vmPropMap of
                        Inl err \<Rightarrow> Inl err
                      | Inr media \<Rightarrow>
                          Inr \<lparr>Name = name, SysBus = bus, Ports = word_of_int portCount,
                               Chipset = chipSet, HostIOCache = False,
                               Bootable = (bootableStr = ''on''), Devices = media\<rparr>)))"

text \<open>\<open>NewStorageControllersFromProps\<close>: the loop over the indices 0 to 7.\<close>

fun ctrlsLoop :: "(string \<rightharpoonup> string) \<Rightarrow> nat list \<Rightarrow> StorageController list
    \<Rightarrow> error + StorageController list" where
  "ctrlsLoop vmPropMap [] ctrls = Inr ctrls"
| "ctrlsLoop vmPropMap (i # is) ctrls =
     (case vmPropMap (''storagecontrollername'' @ fmtDec i) of
        None \<Rightarrow> ctrlsLoop vmPropMap is ctrls
      | Some name \<Rightarrow>
          (case findStorageControllerByIndex name (fmtDec i) vmPropMap of
             Inl err \<Rightarrow> Inl err
           | Inr sc \<Rightarrow> ctrlsLoop vmPropMap is (ctrls @ [sc])))"

definition NewStorageControllersFromProps ::
    "(string \<rightharpoonup> string) \<Rightarrow> error + StorageController list" where
  "NewStorageControllersFromProps vmPropMap = ctrlsLoop vmPropMap [0 ..< 8] []"

section \<open>Colon-block listings (vbmgt.go: reColonLine; dhcp.go: DHCPs; natnet.go: NATNets)\<close>

text \<open>
  \<open>bufio.Scanner\<close> with the default split function \<open>ScanLines\<close> and the default buffer:
  the lines of the text without their line ends (a last line that is empty is no line),
  one trailing carriage return dropped from each; a line of \<open>MaxScanTokenSize\<close> bytes or
  more stops the scan with the error \<open>ErrTooLong\<close>.
\<close>

definition rawLines :: "string \<Rightarrow> string list" where
  "rawLines out =
     (let pieces = splitOn (CHR 0x0A) out
      in if last pieces = [] then butlast pieces else pieces)"

definition dropCR :: "string \<Rightarrow> string" where
  "dropCR line = (if line \<noteq> [] \<and> last line = CHR 0x0D then butlast line else line)"

definition MaxScanTokenSize :: nat where
  "MaxScanTokenSize = 64 * 1024"

text \<open>
  The regular expression \<open>reColonLine\<close>, \<open>(.+):\s+(.*)\<close>, on one line.
  \<open>FindStringSubmatch\<close> prefers the longest first group: the key is the text in front
  of the last colon that has a byte in front of it and a white space byte behind it, the
  value is what follows the white space behind that colon.
\<close>

definition isSpaceRE :: "char \<Rightarrow> bool" where
  "isSpaceRE c = (c = CHR 0x09 \<or> c = CHR 0x0A \<or> c = CHR 0x0C \<or> c = CHR 0x0D \<or> c = CHR '' '')"

fun findColon :: "string \<Rightarrow> string \<Rightarrow> (string \<times> string) option \<Rightarrow> (string \<times> string) option" where
  "findColon pre [] best = best"
| "findColon pre (c # rest) best =
     findColon (pre @ [c]) rest
       (if c = CHR '':'' \<and> pre \<noteq> [] \<and> (case rest of [] \<Rightarrow> False | r # rs \<Rightarrow> isSpaceRE r)
        then Some (pre, dropWhile isSpaceRE rest) else best)"

definition reColonLine :: "string \<Rightarrow> (string \<times> string) option" where
  "reColonLine line = findColon [] line None"

text \<open>\<open>strings.ToLower\<close> on the ASCII letters; other bytes are left as they are.\<close>

definition ToLower :: "string \<Rightarrow> string" where
  "ToLower s =
     map (\<lambda>c. case map_of (zip ''ABCDEFGHIJKLMNOPQRSTUVWXYZ'' ''abcdefghijklmnopqrstuvwxyz'') c of
                None \<Rightarrow> c
              | Some l \<Rightarrow> l) s"

text \<open>
  \<open>nameLine raw v\<close>: the scanned line \<open>raw\<close> is a line of a DHCP listing that names a
  record \<open>v\<close> (its key is \<open>networkname\<close> in any case of letters).
\<close>

definition nameLine :: "string \<Rightarrow> string \<Rightarrow> bool" where
  "nameLine raw v = (case reColonLine (dropCR raw) of
      None \<Rightarrow> False | Some (k, val) \<Rightarrow> ToLower k = ''networkname'' \<and> val = v)"

text \<open>
  What the two listing parsers take from outside the files at hand: the functions of the
  Go package \<open>net\<close> (\<open>net.IP\<close> and \<open>net.IPMask\<close> are byte slices, \<open>nil\<close> is \<open>[]\<close>), and
  of this package the function \<open>ParseIPv4Mask\<close> and the constant \<open>stringYes\<close>. They are
  parameters of the model.
\<close>

type_synonym netIP = "8 word list"
type_synonym IPMask = "8 word list"

record IPNet =
  IP :: netIP
  Mask :: IPMask

record netlib =
  ParseIP :: "string \<Rightarrow> netIP"
  To4 :: "netIP \<Rightarrow> netIP"
  ParseCIDR :: "string \<Rightarrow> error + netIP \<times> IPNet"
  ParseIPv4Mask :: "string \<Rightarrow> IPMask"
  stringYes :: string

record DHCP =
  NetworkName :: string
  IPv4 :: IPNet
  LowerIP :: netIP
  UpperIP :: netIP
  Enabled :: bool

definition zeroDHCP :: DHCP where
  "zeroDHCP = \<lparr>NetworkName = [], IPv4 = \<lparr>IP = [], Mask = []\<rparr>, LowerIP = [], UpperIP = [],
                Enabled = False\<rparr>"

text \<open>
  \<open>DHCPs\<close> keeps pointers: the map holds the address of the record that is being filled,
  and later lines write to that record. \<open>objs\<close> are the records allocated so far (an
  address is an index), \<open>byName\<close> is the map \<open>m\<close>, \<open>current\<close> the pointer \<open>dhcp\<close>.
\<close>

record dhcpState =
  objs :: "DHCP list"
  byName :: "string \<rightharpoonup> nat"
  current :: nat

definition updCurrent :: "(DHCP \<Rightarrow> DHCP) \<Rightarrow> dhcpState \<Rightarrow> dhcpState" where
  "updCurrent f st = st\<lparr>objs := (objs st)[current st := f (objs st ! current st)]\<rparr>"

definition dhcpLine :: "netlib \<Rightarrow> dhcpState \<Rightarrow> string \<Rightarrow> error + dhcpState" where
  "dhcpLine lib st line =
     (if line = [] then Inr (st\<lparr>objs := objs st @ [zeroDHCP], current := length (objs st)\<rparr>)
      else
        (case reColonLine line of
           None \<Rightarrow> Inr st
         | Some (k, val) \<Rightarrow>
             (let key = ToLower k in
              if key = ''networkname''
              then (if byName st val \<noteq> None then Inl ErrDHCPAlreadyParsed
                    else Inr ((updCurrent (\<lambda>d. d\<lparr>NetworkName := val\<rparr>) st)
                                \<lparr>byName := (byName st)(val \<mapsto> current st)\<rparr>))
              else if key = ''ip'' \<or> key = ''dhcpd ip''
              then Inr (updCurrent (\<lambda>d. d\<lparr>IPv4 := (IPv4 d)\<lparr>IP := To4 lib (ParseIP lib val)\<rparr>\<rparr>) st)
              else if key = ''upperipaddress''
              then Inr (updCurrent (\<lambda>d. d\<lparr>UpperIP := To4 lib (ParseIP lib val)\<rparr>) st)
              else if key = ''loweripaddress''
              then Inr (updCurrent (\<lambda>d. d\<lparr>LowerIP := To4 lib (ParseIP lib val)\<rparr>) st)
              else if key = ''networkmask''
              then Inr (updCurrent (\<lambda>d. d\<lparr>IPv4 := (IPv4 d)\<lparr>Mask := ParseIPv4Mask lib val\<rparr>\<rparr>) st)
              else if key = ''enabled''
              then Inr (updCurrent (\<lambda>d. d\<lparr>Enabled := (val = stringYes lib)\<rparr>) st)
              else Inr st)))"

fun dhcpLoop :: "netlib \<Rightarrow> string list \<Rightarrow> dhcpState \<Rightarrow> error + dhcpState" where
  "dhcpLoop lib [] st = Inr st"
| "dhcpLoop lib (raw # raws) st =
     (if MaxScanTokenSize \<le> length raw then Inl ErrTooLong
      else (case dhcpLine lib st (dropCR raw) of
              Inl err \<Rightarrow> Inl err
            | Inr st' \<Rightarrow> dhcpLoop lib raws st'))"

text \<open>
  \<open>DHCPs\<close> on the text \<open>out\<close> that \<open>list dhcpservers\<close> printed. The result maps a name to
  the record its pointer leads to.
\<close>

definition DHCPs :: "netlib \<Rightarrow> string \<Rightarrow> error + (string \<rightharpoonup> DHCP)" where
  "DHCPs lib out =
     (case dhcpLoop lib (rawLines out) \<lparr>objs = [zeroDHCP], byName = Map.empty, current = 0\<rparr> of
        Inl err \<Rightarrow> Inl err
      | Inr st \<Rightarrow> Inr (\<lambda>name. map_option (\<lambda>a. objs st ! a) (byName st name)))"

text \<open>
  \<open>NATNet\<close> and \<open>NATNets\<close>; the fields of \<open>NATNet\<close> carry the suffix \<open>Nat\<close> here. The state
  of the loop is the map \<open>m\<close> and the record \<open>n\<close> that is being filled.
\<close>

record NATNet =
  NameNat :: string
  IPv4Nat :: IPNet
  IPv6Nat :: IPNet
  DHCPNat :: bool
  EnabledNat :: bool

definition zeroNATNet :: NATNet where
  "zeroNATNet = \<lparr>NameNat = [], IPv4Nat = \<lparr>IP = [], Mask = []\<rparr>, IPv6Nat = \<lparr>IP = [], Mask = []\<rparr>,
                  DHCPNat = False, EnabledNat = False\<rparr>"

definition natLine :: "netlib \<Rightarrow> (string \<rightharpoonup> NATNet) \<times> NATNet \<Rightarrow> string
    \<Rightarrow> error + (string \<rightharpoonup> NATNet) \<times> NATNet" where
  "natLine lib st line =
     (case st of (m, n) \<Rightarrow>
        if line = [] then Inr (m(NameNat n \<mapsto> n), zeroNATNet)
        else
          (case reColonLine line of
             None \<Rightarrow> Inr (m, n)
           | Some (key, val) \<Rightarrow>
               if key = ''Name'' \<or> key = ''NetworkName''
               then Inr (m, n\<lparr>NameNat := val\<rparr>)
               else if key = ''IP'' \<or> key = ''Gateway''
               then Inr (m, n\<lparr>IPv4Nat := (IPv4Nat n)\<lparr>IP := ParseIP lib val\<rparr>\<rparr>)
               else if key = ''Network''
               then (case ParseCIDR lib val of
                       Inl err \<Rightarrow> Inl err
                     | Inr (ip, ipnet) \<Rightarrow> Inr (m, n\<lparr>IPv4Nat := (IPv4Nat n)\<lparr>Mask := Mask ipnet\<rparr>\<rparr>))
               else if key = ''IPv6 Prefix''
               then (case ParseCIDR lib val of
                       Inl err \<Rightarrow> Inl err
                     | Inr (ip, ipnet) \<Rightarrow> Inr (m, n\<lparr>IPv6Nat := (IPv6Nat n)\<lparr>Mask := Mask ipnet\<rparr>\<rparr>))
               else if key = ''DHCP Enabled''
               then Inr (m, n\<lparr>DHCPNat := (val = stringYes lib)\<rparr>)
               else if key = ''Enabled''
               then Inr (m, n\<lparr>EnabledNat := (val = stringYes lib)\<rparr>)
               else Inr (m, n)))"

fun natLoop :: "netlib \<Rightarrow> string list \<Rightarrow> (string \<rightharpoonup> NATNet) \<times> NATNet
    \<Rightarrow> error + (string \<rightharpoonup> NATNet) \<times> NATNet" where
  "natLoop lib [] st = Inr st"
| "natLoop lib (raw # raws) st =
     (if MaxScanTokenSize \<le> length raw then Inl ErrTooLong
      else (case natLine lib st (dropCR raw) of
              Inl err \<Rightarrow> Inl err
            | Inr st' \<Rightarrow> natLoop lib raws st'))"

text \<open>\<open>NATNets\<close> on the text \<open>out\<close> that \<open>list natnets\<close> printed.\<close>

definition NATNets :: "netlib \<Rightarrow> string \<Rightarrow> error + (string \<rightharpoonup> NATNet)" where
  "NATNets lib out =
     (case natLoop lib (rawLines out) (Map.empty, zeroNATNet) of
        Inl err \<Rightarrow> Inl err
      | Inr (m, n) \<Rightarrow> Inr m)"

section \<open>Lemmas on the command argument builder\<close>

lemma collect_append: "collect (xs @ ys) st = collect ys (collect xs st)"
  by (induction xs st rule: collect.induct) simp_all

lemma collect_fst:
  "fst (collect xs (m, ord)) k =
     (case filter (\<lambda>a. K a = k) xs of [] \<Rightarrow> m k | y # ys \<Rightarrow> Some (last (y # ys)))"
proof (induction xs arbitrary: m ord)
  case Nil
  show ?case by simp
next
  case (Cons a xs)
  show ?case
    by (simp add: Cons.IH split: list.splits)
qed

lemma collect_inv:
  assumes "set ord = dom m" and "distinct ord"
  shows "set (snd (collect xs (m, ord))) = dom (fst (collect xs (m, ord)))
         \<and> distinct (snd (collect xs (m, ord)))"
  using assms
proof (induction xs arbitrary: m ord)
  case Nil
  then show ?case by simp
next
  case (Cons a xs)
  let ?m = "m(K a \<mapsto> a)"
  let ?o = "if m (K a) = None then ord @ [K a] else ord"
  have 1: "set ?o = dom ?m"
    using Cons.prems(1) by auto
  have 2: "distinct ?o"
    using Cons.prems by (auto simp: domIff)
  show ?case
    unfolding collect.simps by (rule Cons.IH [OF 1 2])
qed

lemma collect_key:
  assumes "\<And>k a. m k = Some a \<Longrightarrow> K a = k"
  shows "fst (collect xs (m, ord)) k = Some a \<Longrightarrow> K a = k"
  using assms
proof (induction xs arbitrary: m ord)
  case Nil
  then show ?case by simp
next
  case (Cons b xs)
  show ?case
  proof (rule Cons.IH)
    show "fst (collect xs (m(K b \<mapsto> b), if m (K b) = None then ord @ [K b] else ord)) k = Some a"
      using Cons.prems(1) by simp
  next
    fix k' a'
    assume "(m(K b \<mapsto> b)) k' = Some a'"
    then show "K a' = k'"
      using Cons.prems(2) by (auto split: if_splits)
  qed
qed

lemma emit_concat:
  "emit m ks = concat (map (\<lambda>k. argParts (lookupArg m k)) (filter (\<lambda>k. \<not> Del (lookupArg m k)) ks))"
  by (induction ks) simp_all

lemma foldl_applyCall_args:
  "args (foldl applyCall c calls) = args c @ concat (map baseEntries calls)"
proof (induction calls arbitrary: c)
  case Nil
  show ?case by simp
next
  case (Cons x xs)
  show ?case
    by (cases x) (simp_all add: Cons.IH Append_def AppendNoValue_def AppendCmdArgs_def AppendOverride_def)
qed

lemma foldl_applyCall_overrides:
  "overrides (foldl applyCall c calls) = overrides c @ concat (map overrideEntries calls)"
proof (induction calls arbitrary: c)
  case Nil
  show ?case by simp
next
  case (Cons x xs)
  show ?case
    by (cases x) (simp_all add: Cons.IH Append_def AppendNoValue_def AppendCmdArgs_def AppendOverride_def)
qed

lemma collectAll_eq:
  "collectAll c = collect (args c @ overrides c) (Map.empty, [])"
  by (simp add: collectAll_def collect_append)

lemma collectAll_fst:
  "fst (collectAll c) k =
     (case filter (\<lambda>a. K a = k) (args c @ overrides c) of
        [] \<Rightarrow> None | y # ys \<Rightarrow> Some (last (y # ys)))"
  unfolding collectAll_eq by (rule collect_fst)

lemma collectAll_inv:
  "set (snd (collectAll c)) = dom (fst (collectAll c)) \<and> distinct (snd (collectAll c))"
  unfolding collectAll_eq by (rule collect_inv) simp_all

lemma Args_concat:
  "Args c = concat (map (\<lambda>k. argParts (winner c k)) (emittedKeys c))"
  by (simp add: Args_def emittedKeys_def winner_def emit_concat split: prod.splits)

lemma distinct_emittedKeys: "distinct (emittedKeys c)"
  by (simp add: emittedKeys_def collectAll_inv)

lemma winner_of_ordered:
  assumes "k \<in> set (snd (collectAll c))"
  shows "winner c k \<in> set (args c @ overrides c) \<and> K (winner c k) = k"
proof -
  from assms obtain a where a: "fst (collectAll c) k = Some a"
    using collectAll_inv [of c] by auto
  let ?ys = "filter (\<lambda>a. K a = k) (args c @ overrides c)"
  from a have ne: "?ys \<noteq> []" and la: "a = last ?ys"
    unfolding collectAll_fst by (auto split: list.splits)
  from ne have "last ?ys \<in> set ?ys"
    by (rule last_in_set)
  with la have "a \<in> set (args c @ overrides c) \<and> K a = k"
    by auto
  with a show ?thesis
    by (simp add: winner_def lookupArg_def)
qed

lemma winner_override:
  assumes "a \<in> set (overrides c)"
  shows "winner c (K a) = last (filter (\<lambda>b. K b = K a) (overrides c))"
proof -
  let ?p = "\<lambda>b. K b = K a"
  from assms have ne: "filter ?p (overrides c) \<noteq> []"
    by (auto simp: filter_empty_conv)
  then have "last (filter ?p (args c @ overrides c)) = last (filter ?p (overrides c))"
    by simp
  moreover from ne have "filter ?p (args c @ overrides c) \<noteq> []"
    by simp
  ultimately show ?thesis
    unfolding winner_def lookupArg_def collectAll_fst
    by (auto split: list.splits)
qed

lemma count_concat_distinct:
  assumes "distinct ks"
    and "\<And>k'. k' \<in> set ks \<Longrightarrow> count_list (f k') k \<le> (if k' = k then 1 else 0)"
  shows "count_list (concat (map f ks)) k \<le> 1
         \<and> (k \<notin> set ks \<longrightarrow> count_list (concat (map f ks)) k = 0)"
  using assms
proof (induction ks)
  case Nil
  show ?case by simp
next
  case (Cons x xs)
  have ih: "count_list (concat (map f xs)) k \<le> 1
            \<and> (k \<notin> set xs \<longrightarrow> count_list (concat (map f xs)) k = 0)"
    using Cons by simp
  have hx: "count_list (f x) k \<le> (if x = k then 1 else 0)"
    using Cons.prems(2) by simp
  show ?case
  proof (cases "x = k")
    case True
    with Cons.prems(1) have "k \<notin> set xs" by simp
    with ih hx True show ?thesis by simp
  next
    case False
    with ih hx show ?thesis by simp
  qed
qed

lemma count_Args:
  assumes "\<forall>a \<in> set (args c @ overrides c). count_list (argParts a) k \<le> (if K a = k then 1 else 0)"
  shows "count_list (Args c) k \<le> 1 \<and> (k \<notin> set (emittedKeys c) \<longrightarrow> count_list (Args c) k = 0)"
  unfolding Args_concat
proof (rule count_concat_distinct)
  show "distinct (emittedKeys c)"
    by (rule distinct_emittedKeys)
next
  fix k'
  assume "k' \<in> set (emittedKeys c)"
  then have "k' \<in> set (snd (collectAll c))"
    by (simp add: emittedKeys_def)
  then have "winner c k' \<in> set (args c @ overrides c)" and "K (winner c k') = k'"
    using winner_of_ordered by blast+
  with assms show "count_list (argParts (winner c k')) k \<le> (if k' = k then 1 else 0)"
    by metis
qed

text \<open>
  Claim C1. For every sequence of Append, AppendNoValue, AppendCmdArgs and AppendOverride
  calls, the resulting value holds the base entries and the override entries in call
  order, and nothing else of the interleaving. \<open>Args\<close> is the concatenation of the tokens
  of one stored argument per emitted key; the emitted keys are pairwise distinct and each
  is the key of its stored argument, so every key yields at most one fragment. For a key
  that occurs in the override sequence the stored argument is the last override entry
  with that key, whatever the base sequence holds. On the level of tokens: a string that
  occurs in the fragments of the appended arguments only as their key (once, and in no
  fragment of an argument with another key) occurs at most once in \<open>Args\<close>.
\<close>

theorem Args_unique_override_wins:
  "args (runCalls calls) = concat (map baseEntries calls)
   \<and> overrides (runCalls calls) = concat (map overrideEntries calls)
   \<and> Args (runCalls calls) =
       concat (map (\<lambda>k. argParts (winner (runCalls calls) k)) (emittedKeys (runCalls calls)))
   \<and> distinct (emittedKeys (runCalls calls))
   \<and> (\<forall>k \<in> set (emittedKeys (runCalls calls)). K (winner (runCalls calls) k) = k)
   \<and> (\<forall>a \<in> set (concat (map overrideEntries calls)).
         winner (runCalls calls) (K a) =
           last (filter (\<lambda>b. K b = K a) (concat (map overrideEntries calls))))
   \<and> (\<forall>k. (\<forall>a \<in> set (concat (map baseEntries calls) @ concat (map overrideEntries calls)).
               count_list (argParts a) k \<le> (if K a = k then 1 else 0))
            \<longrightarrow> count_list (Args (runCalls calls)) k \<le> 1)"
proof -
  let ?c = "runCalls calls"
  have fa: "args ?c = concat (map baseEntries calls)"
    by (simp add: runCalls_def foldl_applyCall_args)
  have fo: "overrides ?c = concat (map overrideEntries calls)"
    by (simp add: runCalls_def foldl_applyCall_overrides)
  have 1: "Args ?c = concat (map (\<lambda>k. argParts (winner ?c k)) (emittedKeys ?c))"
    by (rule Args_concat)
  have 2: "distinct (emittedKeys ?c)"
    by (rule distinct_emittedKeys)
  have 3: "\<forall>k \<in> set (emittedKeys ?c). K (winner ?c k) = k"
    using winner_of_ordered [of _ ?c] by (simp add: emittedKeys_def)
  have 4: "\<forall>a \<in> set (overrides ?c). winner ?c (K a) = last (filter (\<lambda>b. K b = K a) (overrides ?c))"
    using winner_override by blast
  have 5: "\<forall>k. (\<forall>a \<in> set (args ?c @ overrides ?c).
               count_list (argParts a) k \<le> (if K a = k then 1 else 0))
            \<longrightarrow> count_list (Args ?c) k \<le> 1"
    using count_Args by blast
  have f4: "\<forall>a \<in> set (concat (map overrideEntries calls)).
         winner ?c (K a) = last (filter (\<lambda>b. K b = K a) (concat (map overrideEntries calls)))"
    using 4 by (simp only: fo)
  have f5: "\<forall>k. (\<forall>a \<in> set (concat (map baseEntries calls) @ concat (map overrideEntries calls)).
               count_list (argParts a) k \<le> (if K a = k then 1 else 0))
            \<longrightarrow> count_list (Args ?c) k \<le> 1"
    using 5 by (simp only: fa fo)
  from fa fo 1 2 3 f4 f5 show ?thesis
    by (intro conjI)
qed

theorem Args_unique_override_wins_witness:
  "Args (runCalls [CallAppendOverride [NewCmdArg ''--b'' ''9''], CallAppend ''--a'' ''1'',
                   CallAppend ''--b'' ''2'', CallAppend ''--a'' ''3''])
     = [''--a'', ''3'', ''--b'', ''9'']
   \<and> distinct (emittedKeys (runCalls [CallAppendOverride [NewCmdArg ''--b'' ''9''],
         CallAppend ''--a'' ''1'', CallAppend ''--b'' ''2'', CallAppend ''--a'' ''3'']))
   \<and> winner (runCalls [CallAppendOverride [NewCmdArg ''--b'' ''9''], CallAppend ''--a'' ''1'',
                   CallAppend ''--b'' ''2'', CallAppend ''--a'' ''3'']) ''--b''
       = NewCmdArg ''--b'' ''9''
   \<and> count_list (Args (runCalls [CallAppendOverride [NewCmdArg ''--b'' ''9''],
         CallAppend ''--a'' ''1'', CallAppend ''--b'' ''2'', CallAppend ''--a'' ''3''])) ''--b'' \<le> 1"
proof -
  let ?calls = "[CallAppendOverride [NewCmdArg ''--b'' ''9''], CallAppend ''--a'' ''1'',
                 CallAppend ''--b'' ''2'', CallAppend ''--a'' ''3'']"
  note th = Args_unique_override_wins [of ?calls]
  have c: "runCalls ?calls =
      \<lparr>args = [NewCmdArg ''--a'' ''1'', NewCmdArg ''--b'' ''2'', NewCmdArg ''--a'' ''3''],
       overrides = [NewCmdArg ''--b'' ''9'']\<rparr>"
    by (simp add: runCalls_def Append_def AppendOverride_def)
  have e: "Args (runCalls ?calls) = [''--a'', ''3'', ''--b'', ''9'']"
    unfolding c
    by (simp add: Args_def collectAll_def lookupArg_def argParts_def NewCmdArg_def)
  have d: "distinct (emittedKeys (runCalls ?calls))"
    using th by blast
  have "winner (runCalls ?calls) (K (NewCmdArg ''--b'' ''9'')) =
          last (filter (\<lambda>b. K b = K (NewCmdArg ''--b'' ''9'')) (concat (map overrideEntries ?calls)))"
    using th by simp
  then have w: "winner (runCalls ?calls) ''--b'' = NewCmdArg ''--b'' ''9''"
    by (simp add: NewCmdArg_def)
  have "\<forall>a \<in> set (concat (map baseEntries ?calls) @ concat (map overrideEntries ?calls)).
               count_list (argParts a) ''--b'' \<le> (if K a = ''--b'' then 1 else 0)"
    by (simp add: argParts_def NewCmdArg_def)
  then have n: "count_list (Args (runCalls ?calls)) ''--b'' \<le> 1"
    using th by blast
  from e d w n show ?thesis
    by blast
qed

text \<open>
  Claim C6. For every CmdArgs value, a key whose argument object stored last carries the
  deletion marker is not among the emitted keys, of whose stored arguments \<open>Args\<close> is made
  up; this is so in particular when the last override entry for the key is deleted,
  whatever the base sequence holds for it. On the level of tokens: such a key does not
  occur in \<open>Args\<close> at all, unless the fragment of an argument with another key holds it.
\<close>

theorem Args_deleted_absent:
  "Args c = concat (map (\<lambda>k. argParts (winner c k)) (emittedKeys c))
   \<and> (\<forall>k. Del (winner c k) \<longrightarrow> k \<notin> set (emittedKeys c))
   \<and> (\<forall>a \<in> set (overrides c).
         Del (last (filter (\<lambda>b. K b = K a) (overrides c))) \<longrightarrow> K a \<notin> set (emittedKeys c))
   \<and> (\<forall>k. Del (winner c k)
            \<and> (\<forall>a \<in> set (args c @ overrides c). K a \<noteq> k \<longrightarrow> k \<notin> set (argParts a))
          \<longrightarrow> k \<notin> set (Args c))"
proof (intro conjI allI ballI impI)
  show "Args c = concat (map (\<lambda>k. argParts (winner c k)) (emittedKeys c))"
    by (rule Args_concat)
next
  fix k
  assume "Del (winner c k)"
  then show "k \<notin> set (emittedKeys c)"
    by (simp add: emittedKeys_def)
next
  fix a
  assume "a \<in> set (overrides c)"
    and "Del (last (filter (\<lambda>b. K b = K a) (overrides c)))"
  then have "Del (winner c (K a))"
    by (simp add: winner_override)
  then show "K a \<notin> set (emittedKeys c)"
    by (simp add: emittedKeys_def)
next
  fix k
  assume h: "Del (winner c k)
    \<and> (\<forall>a \<in> set (args c @ overrides c). K a \<noteq> k \<longrightarrow> k \<notin> set (argParts a))"
  show "k \<notin> set (Args c)"
  proof
    assume "k \<in> set (Args c)"
    then obtain k' where k': "k' \<in> set (emittedKeys c)" and in': "k \<in> set (argParts (winner c k'))"
      unfolding Args_concat by auto
    from k' have "k' \<in> set (snd (collectAll c))" and nd: "\<not> Del (winner c k')"
      by (simp_all add: emittedKeys_def)
    then have "winner c k' \<in> set (args c @ overrides c)" and "K (winner c k') = k'"
      using winner_of_ordered by blast+
    with h in' have "k' = k"
      by metis
    with nd h show False
      by simp
  qed
qed

theorem Args_deleted_absent_witness:
  "Args \<lparr>args = [NewCmdArg ''--a'' ''1'', NewCmdArg ''--b'' ''2''],
         overrides = [NewCmdArgDeleted ''--a'']\<rparr> = [''--b'', ''2'']
   \<and> ''--a'' \<notin> set (emittedKeys \<lparr>args = [NewCmdArg ''--a'' ''1'', NewCmdArg ''--b'' ''2''],
         overrides = [NewCmdArgDeleted ''--a'']\<rparr>)
   \<and> ''--a'' \<notin> set (Args \<lparr>args = [NewCmdArg ''--a'' ''1'', NewCmdArg ''--b'' ''2''],
         overrides = [NewCmdArgDeleted ''--a'']\<rparr>)"
proof -
  let ?c = "\<lparr>args = [NewCmdArg ''--a'' ''1'', NewCmdArg ''--b'' ''2''],
         overrides = [NewCmdArgDeleted ''--a'']\<rparr>"
  note th = Args_deleted_absent [of ?c]
  have e: "Args ?c = [''--b'', ''2'']"
    by (simp add: Args_def collectAll_def lookupArg_def argParts_def NewCmdArg_def NewCmdArgDeleted_def)
  have m: "NewCmdArgDeleted ''--a'' \<in> set (overrides ?c)"
    by simp
  have l: "Del (last (filter (\<lambda>b. K b = K (NewCmdArgDeleted ''--a'')) (overrides ?c)))"
    by (simp add: NewCmdArgDeleted_def)
  have "K (NewCmdArgDeleted ''--a'') \<notin> set (emittedKeys ?c)"
    using th m l by blast
  then have k: "''--a'' \<notin> set (emittedKeys ?c)"
    by (simp add: NewCmdArgDeleted_def)
  have w: "Del (winner ?c ''--a'')"
    by (simp add: winner_def collectAll_def lookupArg_def NewCmdArg_def NewCmdArgDeleted_def)
  have p: "\<forall>a \<in> set (args ?c @ overrides ?c). K a \<noteq> ''--a'' \<longrightarrow> ''--a'' \<notin> set (argParts a)"
    by (simp add: argParts_def NewCmdArg_def NewCmdArgDeleted_def)
  have t: "''--a'' \<notin> set (Args ?c)"
    using th w p by blast
  from e k t show ?thesis
    by blast
qed

section \<open>Feature toggles: Flag.Get\<close>







section \<open>Lemmas on number formats and on splitting\<close>

lemma lt16_cases: "d < 16 \<Longrightarrow> d \<in> {0,1,2,3,4,5,6,7,8,9,10,11,12,13,14,15::nat}"
  by simp arith

lemma digitVal_digitChar: "d < 16 \<Longrightarrow> digitVal (digitChar d) = Some d"
proof -
  assume "d < 16"
  then have "d \<in> {0,1,2,3,4,5,6,7,8,9,10,11,12,13,14,15}"
    by (rule lt16_cases)
  then show ?thesis
    by (auto simp: digitVal_def digitChar_def)
qed

lemma digitChar_in: "d < 16 \<Longrightarrow> digitChar d \<in> set ''0123456789abcdef''"
proof -
  assume "d < 16"
  then have "d \<in> {0,1,2,3,4,5,6,7,8,9,10,11,12,13,14,15}"
    by (rule lt16_cases)
  then show ?thesis
    by (auto simp: digitChar_def)
qed

lemma parseDigits_append:
  "parseDigits b mx n (xs @ ys) =
     (case parseDigits b mx n xs of Inl e \<Rightarrow> Inl e | Inr v \<Rightarrow> parseDigits b mx v ys)"
  by (induction xs arbitrary: n) (auto split: option.splits)

lemma parseDigits_fmtBase:
  "2 \<le> b \<Longrightarrow> b \<le> 16 \<Longrightarrow> n \<le> mx \<Longrightarrow> parseDigits b mx 0 (fmtBase b n) = Inr n"
proof (induction b n rule: fmtBase.induct)
  case (1 b n)
  note b2 = \<open>2 \<le> b\<close> and b16 = \<open>b \<le> 16\<close> and nmx = \<open>n \<le> mx\<close>
  show ?case
  proof (cases "n < b")
    case True
    from True b16 have "n < 16"
      by linarith
    then have "digitVal (digitChar n) = Some n"
      by (rule digitVal_digitChar)
    moreover from True have "fmtBase b n = [digitChar n]"
      by (simp add: fmtBase.simps)
    ultimately show ?thesis
      using True nmx by simp
  next
    case False
    with b2 have unf: "fmtBase b n = fmtBase b (n div b) @ [digitChar (n mod b)]"
      by (simp add: fmtBase.simps)
    have "n div b \<le> mx"
      using nmx by (meson div_le_dividend le_trans)
    with "1.IH" False b2 b16 have ih: "parseDigits b mx 0 (fmtBase b (n div b)) = Inr (n div b)"
      by simp
    have lt: "n mod b < b"
      using b2 by simp
    with b16 have "n mod b < 16"
      by linarith
    then have dv: "digitVal (digitChar (n mod b)) = Some (n mod b)"
      by (rule digitVal_digitChar)
    have eq: "n div b * b + n mod b = n"
      by simp
    show ?thesis
      unfolding unf parseDigits_append ih
      using dv lt nmx by (simp add: eq)
  qed
qed

lemma parseDigits_zeros:
  assumes "2 \<le> b"
  shows "parseDigits b mx 0 (replicate k (CHR ''0'') @ s) = parseDigits b mx 0 s"
  using assms by (induction k) (simp_all add: digitVal_def)

lemma fmtBase_nonempty: "fmtBase b n \<noteq> []"
  by (subst fmtBase.simps) simp

lemma fmtBase_chars:
  "2 \<le> b \<Longrightarrow> b \<le> 16 \<Longrightarrow> set (fmtBase b n) \<subseteq> set ''0123456789abcdef''"
proof (induction b n rule: fmtBase.induct)
  case (1 b n)
  note b2 = \<open>2 \<le> b\<close> and b16 = \<open>b \<le> 16\<close>
  show ?case
  proof (cases "n < b")
    case True
    from True b16 have "n < 16"
      by linarith
    then have "digitChar n \<in> set ''0123456789abcdef''"
      by (rule digitChar_in)
    moreover from True have "fmtBase b n = [digitChar n]"
      by (simp add: fmtBase.simps)
    ultimately show ?thesis
      by simp
  next
    case False
    with b2 have unf: "fmtBase b n = fmtBase b (n div b) @ [digitChar (n mod b)]"
      by (simp add: fmtBase.simps)
    have "n mod b < b"
      using b2 by simp
    with b16 have "n mod b < 16"
      by linarith
    then have "digitChar (n mod b) \<in> set ''0123456789abcdef''"
      by (rule digitChar_in)
    moreover have "set (fmtBase b (n div b)) \<subseteq> set ''0123456789abcdef''"
      using "1.IH" False b2 b16 by simp
    ultimately show ?thesis
      unfolding unf by simp
  qed
qed

lemma splitOn_notin: "sep \<notin> set xs \<Longrightarrow> splitOn sep xs = [xs]"
  by (induction xs) auto

lemma splitOn_append:
  "sep \<notin> set xs \<Longrightarrow> splitOn sep (xs @ sep # ys) = xs # splitOn sep ys"
  by (induction xs) auto

lemma fmtBase_no_sep:
  assumes "2 \<le> b" and "b \<le> 16" and "c \<notin> set ''0123456789abcdef''"
  shows "c \<notin> set (fmtBase b n)"
  using fmtBase_chars [OF assms(1,2), of n] assms(3) by blast

lemma fmtHex04_no_sep:
  assumes "c \<notin> set ''0123456789abcdef''"
  shows "c \<notin> set (fmtHex04 n)"
proof -
  have "c \<notin> set (fmtBase 16 n)"
    by (rule fmtBase_no_sep) (use assms in simp_all)
  moreover have "c \<noteq> CHR ''0''"
    using assms by auto
  ultimately show ?thesis
    by (auto simp: fmtHex04_def)
qed

lemma fmtDec_no_sep:
  assumes "c \<notin> set ''0123456789abcdef''"
  shows "c \<notin> set (fmtDec n)"
  unfolding fmtDec_def by (rule fmtBase_no_sep) (use assms in simp_all)

lemma ParseUint_fmtHex04:
  assumes "n < 2 ^ 64"
  shows "ParseUint (fmtHex04 n) 16 64 = Inr n"
proof -
  have "fmtHex04 n \<noteq> []"
    by (simp add: fmtHex04_def fmtBase_nonempty)
  moreover have "parseDigits 16 (2 ^ 64 - 1) 0 (fmtHex04 n) = Inr n"
    unfolding fmtHex04_def
    by (subst parseDigits_zeros) (use assms in \<open>simp_all add: parseDigits_fmtBase\<close>)
  ultimately show ?thesis
    by (simp add: ParseUint_def)
qed

lemma ParseUint_fmtDec:
  assumes "n < 2 ^ 32"
  shows "ParseUint (fmtDec n) 10 32 = Inr n"
proof -
  have "fmtDec n \<noteq> []"
    by (simp add: fmtDec_def fmtBase_nonempty)
  moreover have "parseDigits 10 (2 ^ 32 - 1) 0 (fmtDec n) = Inr n"
    unfolding fmtDec_def
    by (rule parseDigits_fmtBase) (use assms in simp_all)
  ultimately show ?thesis
    by (simp add: ParseUint_def)
qed

lemma initFromVMInfoValue_toVMInfoValueUARTn:
  assumes "unat (IRQ cc') < 2 ^ 32"
  shows "initFromVMInfoValue cc (toVMInfoValueUARTn cc') = Inr (cc\<lparr>Port := Port cc', IRQ := IRQ cc'\<rparr>)"
proof -
  let ?hex = "''0x'' @ fmtHex04 (unat (Port cc'))"
  let ?dec = "fmtDec (unat (IRQ cc'))"
  have c1: "CHR '','' \<notin> set ?hex"
    using fmtHex04_no_sep [of "CHR '',''" "unat (Port cc')"] by simp
  have c2: "CHR '','' \<notin> set ?dec"
    by (rule fmtDec_no_sep) simp
  have "toVMInfoValueUARTn cc' = ?hex @ CHR '','' # ?dec"
    by (simp add: toVMInfoValueUARTn_def)
  then have sp: "splitOn (CHR '','') (toVMInfoValueUARTn cc') = [?hex, ?dec]"
    using splitOn_append [OF c1, of ?dec] splitOn_notin [OF c2] by simp
  have p: "ParseUint (fmtHex04 (unat (Port cc'))) 16 64 = Inr (unat (Port cc'))"
    by (rule ParseUint_fmtHex04) (use unsigned_less [of "Port cc'", where 'a = nat] in simp)
  have q: "ParseUint ?dec 10 32 = Inr (unat (IRQ cc'))"
    by (rule ParseUint_fmtDec) (rule assms)
  show ?thesis
    unfolding initFromVMInfoValue_def sp
    by (simp add: p q)
qed

section \<open>UART codec: serialization\<close>

lemma split_uart_value:
  "splitOn (CHR '' '') (''0x'' @ fmtHex04 p @ '' '' @ fmtDec q) = [''0x'' @ fmtHex04 p, fmtDec q]"
proof -
  have c1: "CHR '' '' \<notin> set (''0x'' @ fmtHex04 p)"
    using fmtHex04_no_sep [of "CHR '' ''" p] by simp
  have c2: "CHR '' '' \<notin> set (fmtDec q)"
    by (rule fmtDec_no_sep) simp
  show ?thesis
    using splitOn_append [OF c1, of "fmtDec q"] splitOn_notin [OF c2] by simp
qed

lemma split_mode_value:
  assumes "CHR '' '' \<notin> set mode" and "CHR '' '' \<notin> set modeData"
  shows "splitOn (CHR '' '') (mode @ '' '' @ modeData) = [mode, modeData]"
  using splitOn_append [OF assms(1), of modeData] splitOn_notin [OF assms(2)] by simp

lemma fmtDec_digit: "n < 10 \<Longrightarrow> fmtDec n = [digitChar n]"
  by (simp add: fmtDec_def fmtBase.simps)

lemma name_nonempty: "''--uart'' @ r \<noteq> []" "''--uartmode'' @ r \<noteq> []" "''--uarttype'' @ r \<noteq> []"
  by simp_all

lemma commandParameters_rank:
  assumes "ToRank (Key uart) = Inr n"
  shows "commandParameters uart = Inr
       (if IsOff uart then [''--uart'' @ fmtDec n, ''off'']
        else [''--uart'' @ fmtDec n, ''0x'' @ fmtHex04 (unat (Port (ComConfig uart))),
              fmtDec (unat (IRQ (ComConfig uart))), ''--uartmode'' @ fmtDec n]
             @ (if Mode uart = UARTModeDisconnected then [UARTModeDisconnected]
                else splitOn (CHR '' '') (Mode uart @ '' '' @ ModeData uart))
             @ [''--uarttype'' @ fmtDec n] @ splitOn (CHR '' '') (Type uart))"
proof (cases "IsOff uart")
  case True
  have "splitOn (CHR '' '') ''off'' = [''off'']"
    by simp
  with True assms show ?thesis
    by (simp add: commandParameters_def commandParameterUartN_def
        commandParameterUARTModeN_def commandParameterUARTTypeN_def)
next
  case False
  define v1 where "v1 = ''0x'' @ fmtHex04 (unat (Port (ComConfig uart))) @ '' ''
                      @ fmtDec (unat (IRQ (ComConfig uart)))"
  define v2 where "v2 = Mode uart @ '' '' @ ModeData uart"
  define hex where "hex = ''0x'' @ fmtHex04 (unat (Port (ComConfig uart)))"
  have s1: "splitOn (CHR '' '') v1 = [hex, fmtDec (unat (IRQ (ComConfig uart)))]"
    unfolding v1_def hex_def by (rule split_uart_value)
  have d: "splitOn (CHR '' '') UARTModeDisconnected = [UARTModeDisconnected]"
    by (simp add: UARTModeDisconnected_def)
  have p1: "commandParameterUartN uart = Inr (''--uart'' @ fmtDec n, v1)"
    using False assms by (simp add: commandParameterUartN_def v1_def)
  have p2: "commandParameterUARTModeN uart =
      Inr (''--uartmode'' @ fmtDec n, if Mode uart = UARTModeDisconnected then UARTModeDisconnected else v2)"
    using False assms by (simp add: commandParameterUARTModeN_def v2_def)
  have p3: "commandParameterUARTTypeN uart = Inr (''--uarttype'' @ fmtDec n, Type uart)"
    using False assms by (simp add: commandParameterUARTTypeN_def)
  have "commandParameters uart = Inr
       ([''--uart'' @ fmtDec n, hex, fmtDec (unat (IRQ (ComConfig uart))), ''--uartmode'' @ fmtDec n]
         @ (if Mode uart = UARTModeDisconnected then [UARTModeDisconnected]
            else splitOn (CHR '' '') v2)
         @ [''--uarttype'' @ fmtDec n] @ splitOn (CHR '' '') (Type uart))"
    unfolding commandParameters_def p1 p2 p3
    by (simp add: s1 d del: splitOn.simps)
  with False show ?thesis
    by (simp add: hex_def v2_def)
qed

lemma supported_key_rank:
  assumes "IsSupportedKey key"
  shows "\<exists>n. 1 \<le> n \<and> n \<le> 4 \<and> key = ''uart'' @ fmtDec n \<and> ToRank key = Inr n
             \<and> UARTKeyFromRank n = Inr key"
proof -
  have d: "fmtDec (Suc 0) = ''1''" "fmtDec 2 = ''2''" "fmtDec 3 = ''3''" "fmtDec 4 = ''4''"
    by (simp_all add: fmtDec_def fmtBase.simps digitChar_def)
  from assms consider "key = UART1" | "key = UART2" | "key = UART3" | "key = UART4"
    by (auto simp: IsSupportedKey_def)
  then show ?thesis
  proof cases
    case 1
    then have "key = ''uart'' @ fmtDec 1 \<and> ToRank key = Inr 1 \<and> UARTKeyFromRank 1 = Inr key"
      by (simp add: d UART1_def ToRank_def UARTKeyFromRank_def)
    moreover have "1 \<le> (1::nat)" "(1::nat) \<le> 4" by simp_all
    ultimately show ?thesis by blast
  next
    case 2
    then have "key = ''uart'' @ fmtDec 2 \<and> ToRank key = Inr 2 \<and> UARTKeyFromRank 2 = Inr key"
      by (simp add: d UART1_def UART2_def ToRank_def UARTKeyFromRank_def)
    moreover have "1 \<le> (2::nat)" "(2::nat) \<le> 4" by simp_all
    ultimately show ?thesis by blast
  next
    case 3
    then have "key = ''uart'' @ fmtDec 3 \<and> ToRank key = Inr 3 \<and> UARTKeyFromRank 3 = Inr key"
      by (simp add: d UART1_def UART2_def UART3_def ToRank_def UARTKeyFromRank_def)
    moreover have "1 \<le> (3::nat)" "(3::nat) \<le> 4" by simp_all
    ultimately show ?thesis by blast
  next
    case 4
    then have "key = ''uart'' @ fmtDec 4 \<and> ToRank key = Inr 4 \<and> UARTKeyFromRank 4 = Inr key"
      by (simp add: d UART1_def UART2_def UART3_def UART4_def ToRank_def UARTKeyFromRank_def)
    moreover have "1 \<le> (4::nat)" "(4::nat) \<le> 4" by simp_all
    ultimately show ?thesis by blast
  qed
qed

text \<open>
  Claim C8. A UART in one of the four slots serializes as follows. An off UART (I/O base
  and IRQ both zero) gives exactly the two tokens \<open>--uart<N>\<close> and \<open>off\<close>. Any other UART
  gives \<open>--uart<N>\<close>, the I/O base as \<open>0x\<close> and at least four hexadecimal digits, the IRQ
  in decimal, then \<open>--uartmode<N>\<close> followed by \<open>disconnected\<close> alone or by the pieces of
  mode and mode data between blanks, then \<open>--uarttype<N>\<close> and the type. A mode and
  mode data without blanks are the two tokens mode, mode data; a type without blanks is
  one token.
\<close>

theorem commandParameters_shape:
  assumes "IsSupportedKey (Key uart)"
  shows "\<exists>n. 1 \<le> n \<and> n \<le> 4 \<and> Key uart = ''uart'' @ fmtDec n
     \<and> commandParameters uart = Inr
       (if IsOff uart then [''--uart'' @ fmtDec n, ''off'']
        else [''--uart'' @ fmtDec n, ''0x'' @ fmtHex04 (unat (Port (ComConfig uart))),
              fmtDec (unat (IRQ (ComConfig uart))), ''--uartmode'' @ fmtDec n]
             @ (if Mode uart = UARTModeDisconnected then [UARTModeDisconnected]
                else splitOn (CHR '' '') (Mode uart @ '' '' @ ModeData uart))
             @ [''--uarttype'' @ fmtDec n] @ splitOn (CHR '' '') (Type uart))
     \<and> (CHR '' '' \<notin> set (Mode uart) \<and> CHR '' '' \<notin> set (ModeData uart)
          \<longrightarrow> splitOn (CHR '' '') (Mode uart @ '' '' @ ModeData uart) = [Mode uart, ModeData uart])
     \<and> (CHR '' '' \<notin> set (Type uart) \<longrightarrow> splitOn (CHR '' '') (Type uart) = [Type uart])
     \<and> 4 \<le> length (fmtHex04 (unat (Port (ComConfig uart))))"
proof -
  from supported_key_rank [OF assms] obtain n where
    n: "1 \<le> n" "n \<le> 4" "Key uart = ''uart'' @ fmtDec n" "ToRank (Key uart) = Inr n"
    by blast
  have len: "4 \<le> length (fmtHex04 (unat (Port (ComConfig uart))))"
    by (simp add: fmtHex04_def)
  show ?thesis
    using n commandParameters_rank [OF n(4)] split_mode_value splitOn_notin len
    by (intro exI [of _ n]) simp
qed

theorem commandParameters_shape_witness:
  "IsSupportedKey (Key \<lparr>ComConfig = COM2, Type = UARTT16550A, Mode = UARTModeFile,
                        ModeData = ''/tmp/uart1'', Key = UART2\<rparr>)
   \<and> commandParameters \<lparr>ComConfig = COM2, Type = UARTT16550A, Mode = UARTModeFile,
                        ModeData = ''/tmp/uart1'', Key = UART2\<rparr>
       = Inr [''--uart2'', ''0x02f8'', ''3'', ''--uartmode2'', ''file'', ''/tmp/uart1'',
              ''--uarttype2'', ''16550A'']"
proof -
  let ?u = "\<lparr>ComConfig = COM2, Type = UARTT16550A, Mode = UARTModeFile,
             ModeData = ''/tmp/uart1'', Key = UART2\<rparr>"
  have k: "IsSupportedKey (Key ?u)"
    by (simp add: IsSupportedKey_def)
  from commandParameters_shape [OF k] obtain n where
    n: "1 \<le> n" "n \<le> 4" "Key ?u = ''uart'' @ fmtDec n"
    and cp: "commandParameters ?u = Inr
       (if IsOff ?u then [''--uart'' @ fmtDec n, ''off'']
        else [''--uart'' @ fmtDec n, ''0x'' @ fmtHex04 (unat (Port (ComConfig ?u))),
              fmtDec (unat (IRQ (ComConfig ?u))), ''--uartmode'' @ fmtDec n]
             @ (if Mode ?u = UARTModeDisconnected then [UARTModeDisconnected]
                else splitOn (CHR '' '') (Mode ?u @ '' '' @ ModeData ?u))
             @ [''--uarttype'' @ fmtDec n] @ splitOn (CHR '' '') (Type ?u))"
    by blast
  from n(3) have d: "fmtDec n = ''2''"
    by (simp add: UART2_def)
  have off: "\<not> IsOff ?u"
    by (simp add: IsOff_def COM2_def)
  have h: "fmtHex04 (unat (Port (ComConfig ?u))) = ''02f8''"
    by (simp add: COM2_def fmtHex04_def fmtBase.simps digitChar_def)
  have q: "fmtDec (unat (IRQ (ComConfig ?u))) = ''3''"
    by (simp add: COM2_def fmtDec_def fmtBase.simps digitChar_def)
  have m: "Mode ?u \<noteq> UARTModeDisconnected"
    by (simp add: UARTModeFile_def UARTModeDisconnected_def)
  have "commandParameters ?u = Inr [''--uart2'', ''0x02f8'', ''3'', ''--uartmode2'', ''file'',
      ''/tmp/uart1'', ''--uarttype2'', ''16550A'']"
    unfolding cp d h q using off m
    by (simp add: UARTModeFile_def UARTT16550A_def)
  with k show ?thesis
    by blast
qed

section \<open>UART codec: the parse path\<close>

text \<open>
  Claim C5, the code at two malformed values of \<open>uart1\<close>. The value \<open>1,4\<close> has a first
  part of one byte: the slice \<open>splits[0][2:]\<close> panics, no error is returned. The value
  \<open>zz03f8,4\<close> has no \<open>0x\<close> in front: its first two bytes are dropped unread and the
  parse succeeds with I/O base \<open>0x3f8\<close> and IRQ 4.
\<close>

theorem NewUARTs_malformed_value:
  "NewUARTs [''uart1'' \<mapsto> ''1,4''] = Inl RuntimePanic
   \<and> NewUARTs [''uart1'' \<mapsto> ''zz03f8,4'']
       = Inr [\<lparr>ComConfig = \<lparr>Port = 0x3F8, IRQ = 4\<rparr>, Type = [], Mode = [], ModeData = [],
               Key = UART1\<rparr>,
              UARTOffFromKey UART2, UARTOffFromKey UART3, UARTOffFromKey UART4]"
proof
  have "initFromVMInfoValue \<lparr>Port = 0, IRQ = 0\<rparr> ''1,4'' = Inl RuntimePanic"
    by (simp add: initFromVMInfoValue_def)
  then show "NewUARTs [''uart1'' \<mapsto> ''1,4''] = Inl RuntimePanic"
    by (simp add: NewUARTs_def newUARTn_def UARTKeyFromRank_def UART1_def UARTOffFromKey_def)
next
  have d: "fmtDec (Suc 0) = ''1''"
    by (simp add: fmtDec_def fmtBase.simps digitChar_def)
  have "initFromVMInfoValue \<lparr>Port = 0, IRQ = 0\<rparr> ''zz03f8,4'' = Inr \<lparr>Port = 0x3F8, IRQ = 4\<rparr>"
    by (simp add: initFromVMInfoValue_def ParseUint_def digitVal_def)
  then show "NewUARTs [''uart1'' \<mapsto> ''zz03f8,4'']
       = Inr [\<lparr>ComConfig = \<lparr>Port = 0x3F8, IRQ = 4\<rparr>, Type = [], Mode = [], ModeData = [],
               Key = UART1\<rparr>,
              UARTOffFromKey UART2, UARTOffFromKey UART3, UARTOffFromKey UART4]"
    by (simp add: NewUARTs_def newUARTn_def UARTKeyFromRank_def UART1_def UART2_def UART3_def
        UART4_def UARTOffFromKey_def initUARTModeFromVMInfoMap_def initUARTTypeFromVMInfoMap_def
        ToRank_def d)
qed


lemma newUARTn_absent:
  assumes "UARTKeyFromRank i = Inr k" and "m k = None"
  shows "newUARTn m i = Inr (UARTOffFromKey k)"
  using assms by (simp add: newUARTn_def UARTOffFromKey_def)

lemma toVMInfoValueUARTn_not_off: "toVMInfoValueUARTn cc \<noteq> ''off''"
  by (simp add: toVMInfoValueUARTn_def)

lemma initUARTMode_rendered:
  assumes r: "ToRank (Key u) = Inr i"
    and md: "Mode uart = UARTModeServer \<or> Mode uart = UARTModeClient
         \<or> Mode uart = UARTModeTCPServer \<or> Mode uart = UARTModeTCPClient
         \<or> Mode uart = UARTModeFile \<or> Mode uart = UARTModeDisconnected"
    and dd: "Mode uart = UARTModeDisconnected \<longrightarrow> ModeData uart = ModeData u"
    and nc: "CHR '','' \<notin> set (ModeData uart)"
    and lk: "m (''uartmode'' @ fmtDec i) =
          Some (if Mode uart = UARTModeDisconnected then UARTModeDisconnected
                else Mode uart @ '','' @ ModeData uart)"
  shows "initUARTModeFromVMInfoMap u m = Inr (u\<lparr>Mode := Mode uart, ModeData := ModeData uart\<rparr>)"
proof (cases "Mode uart = UARTModeDisconnected")
  case True
  with dd have "u\<lparr>Mode := Mode uart, ModeData := ModeData uart\<rparr> = u\<lparr>Mode := UARTModeDisconnected\<rparr>"
    by simp
  with True r lk show ?thesis
    by (simp add: initUARTModeFromVMInfoMap_def)
next
  case False
  define v where "v = Mode uart @ '','' @ ModeData uart"
  from False md have five: "Mode uart = UARTModeServer \<or> Mode uart = UARTModeClient
         \<or> Mode uart = UARTModeTCPServer \<or> Mode uart = UARTModeTCPClient
         \<or> Mode uart = UARTModeFile"
    by blast
  then have nm: "CHR '','' \<notin> set (Mode uart)"
    by (auto simp: UARTModeServer_def UARTModeClient_def UARTModeTCPServer_def
        UARTModeTCPClient_def UARTModeFile_def)
  have sp: "splitOn (CHR '','') v = [Mode uart, ModeData uart]"
    unfolding v_def using splitOn_append [OF nm, of "ModeData uart"] splitOn_notin [OF nc] by simp
  from five have ne: "UARTModeDisconnected \<noteq> v"
    unfolding v_def
    by (auto simp: UARTModeServer_def UARTModeClient_def UARTModeTCPServer_def
        UARTModeTCPClient_def UARTModeFile_def UARTModeDisconnected_def)
  from lk False have lk': "m (''uartmode'' @ fmtDec i) = Some v"
    by (simp add: v_def)
  show ?thesis
    unfolding initUARTModeFromVMInfoMap_def r
    using five ne lk' by (auto simp: sp Let_def simp del: splitOn.simps)
qed

lemma initUARTType_rendered:
  assumes "ToRank (Key u) = Inr i" and "IsSupportedUARTType t"
    and "m (''uarttype'' @ fmtDec i) = Some t"
  shows "initUARTTypeFromVMInfoMap u m = Inr (u\<lparr>Type := t\<rparr>)"
  using assms by (simp add: initUARTTypeFromVMInfoMap_def)

lemma newUARTn_present:
  assumes kr: "UARTKeyFromRank i = Inr (Key uart)"
    and r: "ToRank (Key uart) = Inr i"
    and ty: "IsSupportedUARTType (Type uart)"
    and md: "Mode uart = UARTModeServer \<or> Mode uart = UARTModeClient
         \<or> Mode uart = UARTModeTCPServer \<or> Mode uart = UARTModeTCPClient
         \<or> Mode uart = UARTModeFile \<or> Mode uart = UARTModeDisconnected"
    and dd: "Mode uart = UARTModeDisconnected \<longrightarrow> ModeData uart = []"
    and nc: "CHR '','' \<notin> set (ModeData uart)"
    and irq: "unat (IRQ (ComConfig uart)) < 2 ^ 32"
    and l1: "m (Key uart) = Some (toVMInfoValueUARTn (ComConfig uart))"
    and l2: "m (''uartmode'' @ fmtDec i) =
          Some (if Mode uart = UARTModeDisconnected then UARTModeDisconnected
                else Mode uart @ '','' @ ModeData uart)"
    and l3: "m (''uarttype'' @ fmtDec i) = Some (Type uart)"
  shows "newUARTn m i = Inr uart"
proof -
  define u0 where "u0 = UARTOffFromKey (Key uart)"
  define u1 where "u1 = u0\<lparr>ComConfig := ComConfig uart\<rparr>"
  define u2 where "u2 = u1\<lparr>Mode := Mode uart, ModeData := ModeData uart\<rparr>"
  have k0: "Key u0 = Key uart" "ComConfig u0 = \<lparr>Port = 0, IRQ = 0\<rparr>"
    by (simp_all add: u0_def UARTOffFromKey_def)
  have i1: "initFromVMInfoValue (ComConfig u0) (toVMInfoValueUARTn (ComConfig uart)) = Inr (ComConfig uart)"
    unfolding k0 using initFromVMInfoValue_toVMInfoValueUARTn [OF irq, of "\<lparr>Port = 0, IRQ = 0\<rparr>"]
    by simp
  have k1: "Key u1 = Key uart" "ModeData u1 = []"
    by (simp_all add: u1_def u0_def UARTOffFromKey_def)
  have i2: "initUARTModeFromVMInfoMap u1 m = Inr u2"
    unfolding u2_def
    by (rule initUARTMode_rendered [where i = i]) (use k1 r md dd nc l2 in simp_all)
  have k2: "Key u2 = Key uart"
    by (simp add: u2_def k1)
  have i3: "initUARTTypeFromVMInfoMap u2 m = Inr (u2\<lparr>Type := Type uart\<rparr>)"
    by (rule initUARTType_rendered [where i = i]) (use k2 r ty l3 in simp_all)
  have fin: "u2\<lparr>Type := Type uart\<rparr> = uart"
    by (simp add: u2_def u1_def u0_def UARTOffFromKey_def)
  have "newUARTn m i =
      (case initFromVMInfoValue (ComConfig u0) (toVMInfoValueUARTn (ComConfig uart)) of
         Inl e \<Rightarrow> Inl e
       | Inr cc \<Rightarrow>
           (case initUARTModeFromVMInfoMap (u0\<lparr>ComConfig := cc\<rparr>) m of
              Inl e \<Rightarrow> Inl e
            | Inr uart' \<Rightarrow> initUARTTypeFromVMInfoMap uart' m))"
    unfolding newUARTn_def kr
    by (simp add: u0_def [symmetric] k0 l1 toVMInfoValueUARTn_not_off)
  then show ?thesis
    unfolding i1 by (simp add: u1_def [symmetric] i2 i3 fin)
qed

lemma slot_present:
  assumes "Key uart = ''uart'' @ [c]"
    and "ToRank (Key uart) = Inr i" and "UARTKeyFromRank i = Inr (Key uart)" and "fmtDec i = [c]"
    and "IsSupportedUARTType (Type uart)"
    and "Mode uart = UARTModeServer \<or> Mode uart = UARTModeClient
         \<or> Mode uart = UARTModeTCPServer \<or> Mode uart = UARTModeTCPClient
         \<or> Mode uart = UARTModeFile \<or> Mode uart = UARTModeDisconnected"
    and "Mode uart = UARTModeDisconnected \<longrightarrow> ModeData uart = []"
    and "CHR '','' \<notin> set (ModeData uart)"
    and "unat (IRQ (ComConfig uart)) < 2 ^ 32"
  shows "newUARTn (map_of (vmInfoPairs uart)) i = Inr uart"
proof (rule newUARTn_present)
  show "map_of (vmInfoPairs uart) (Key uart) = Some (toVMInfoValueUARTn (ComConfig uart))"
    by (simp add: vmInfoPairs_def)
  show "map_of (vmInfoPairs uart) (''uartmode'' @ fmtDec i) =
          Some (if Mode uart = UARTModeDisconnected then UARTModeDisconnected
                else Mode uart @ '','' @ ModeData uart)"
    by (simp add: vmInfoPairs_def assms(1,4))
  show "map_of (vmInfoPairs uart) (''uarttype'' @ fmtDec i) = Some (Type uart)"
    by (simp add: vmInfoPairs_def assms(1,4))
qed (use assms in simp_all)

lemma slot_absent:
  assumes "Key uart = ''uart'' @ [c]" and "UARTKeyFromRank j = Inr (''uart'' @ [c'])" and "c' \<noteq> c"
  shows "newUARTn (map_of (vmInfoPairs uart)) j = Inr (UARTOffFromKey (''uart'' @ [c']))"
proof (rule newUARTn_absent)
  show "UARTKeyFromRank j = Inr (''uart'' @ [c'])"
    by (rule assms(2))
  show "map_of (vmInfoPairs uart) (''uart'' @ [c']) = None"
    using assms(3) by (simp add: vmInfoPairs_def assms(1))
qed

lemma rank_facts:
  "UARTKeyFromRank 1 = Inr (''uart'' @ [CHR ''1''])" "UARTKeyFromRank 2 = Inr (''uart'' @ [CHR ''2''])"
  "UARTKeyFromRank 3 = Inr (''uart'' @ [CHR ''3''])" "UARTKeyFromRank 4 = Inr (''uart'' @ [CHR ''4''])"
  "ToRank (''uart'' @ [CHR ''1'']) = Inr 1" "ToRank (''uart'' @ [CHR ''2'']) = Inr 2"
  "ToRank (''uart'' @ [CHR ''3'']) = Inr 3" "ToRank (''uart'' @ [CHR ''4'']) = Inr 4"
  "fmtDec 1 = [CHR ''1'']" "fmtDec 2 = [CHR ''2'']" "fmtDec 3 = [CHR ''3'']" "fmtDec 4 = [CHR ''4'']"
  by (simp_all add: UARTKeyFromRank_def ToRank_def UART1_def UART2_def UART3_def UART4_def
      fmtDec_def fmtBase.simps digitChar_def)

text \<open>
  Claim C4, amended. A UART in one of the four slots, of one of the three types, in one of
  the six modes (mode \<open>disconnected\<close> without mode data, the mode data of the other modes
  free of commas) and with an IRQ below \<open>2 ^ 32\<close>, rendered as the properties of the
  machine-readable dump and decoded by \<open>NewUARTs\<close>, gives the four slots with this UART in
  its slot, equal to the original, and the other three slots off.
\<close>

theorem NewUARTs_vmInfo_roundtrip:
  assumes key: "IsSupportedKey (Key uart)"
    and ty: "IsSupportedUARTType (Type uart)"
    and md: "Mode uart = UARTModeServer \<or> Mode uart = UARTModeClient
         \<or> Mode uart = UARTModeTCPServer \<or> Mode uart = UARTModeTCPClient
         \<or> Mode uart = UARTModeFile \<or> Mode uart = UARTModeDisconnected"
    and dd: "Mode uart = UARTModeDisconnected \<longrightarrow> ModeData uart = []"
    and nc: "CHR '','' \<notin> set (ModeData uart)"
    and irq: "unat (IRQ (ComConfig uart)) < 2 ^ 32"
  shows "NewUARTs (map_of (vmInfoPairs uart)) =
           Inr (map (\<lambda>k. if k = Key uart then uart else UARTOffFromKey k)
                  [UART1, UART2, UART3, UART4])"
proof -
  let ?m = "map_of (vmInfoPairs uart)"
  note p = slot_present [OF _ _ _ _ ty md dd nc irq]
  from key consider "Key uart = ''uart'' @ [CHR ''1'']" | "Key uart = ''uart'' @ [CHR ''2'']"
    | "Key uart = ''uart'' @ [CHR ''3'']" | "Key uart = ''uart'' @ [CHR ''4'']"
    by (auto simp: IsSupportedKey_def UART1_def UART2_def UART3_def UART4_def)
  then show ?thesis
  proof cases
    case 1
    have "newUARTn ?m 1 = Inr uart"
      by (rule p [OF 1]) (simp_all only: 1 rank_facts)
    moreover have "newUARTn ?m 2 = Inr (UARTOffFromKey (''uart'' @ [CHR ''2'']))"
      by (rule slot_absent [OF 1 rank_facts(2)]) simp
    moreover have "newUARTn ?m 3 = Inr (UARTOffFromKey (''uart'' @ [CHR ''3'']))"
      by (rule slot_absent [OF 1 rank_facts(3)]) simp
    moreover have "newUARTn ?m 4 = Inr (UARTOffFromKey (''uart'' @ [CHR ''4'']))"
      by (rule slot_absent [OF 1 rank_facts(4)]) simp
    ultimately show ?thesis
      using 1 by (simp add: NewUARTs_def UART1_def UART2_def UART3_def UART4_def)
  next
    case 2
    have "newUARTn ?m 2 = Inr uart"
      by (rule p [OF 2]) (simp_all only: 2 rank_facts)
    moreover have "newUARTn ?m 1 = Inr (UARTOffFromKey (''uart'' @ [CHR ''1'']))"
      by (rule slot_absent [OF 2 rank_facts(1)]) simp
    moreover have "newUARTn ?m 3 = Inr (UARTOffFromKey (''uart'' @ [CHR ''3'']))"
      by (rule slot_absent [OF 2 rank_facts(3)]) simp
    moreover have "newUARTn ?m 4 = Inr (UARTOffFromKey (''uart'' @ [CHR ''4'']))"
      by (rule slot_absent [OF 2 rank_facts(4)]) simp
    ultimately show ?thesis
      using 2 by (simp add: NewUARTs_def UART1_def UART2_def UART3_def UART4_def)
  next
    case 3
    have "newUARTn ?m 3 = Inr uart"
      by (rule p [OF 3]) (simp_all only: 3 rank_facts)
    moreover have "newUARTn ?m 1 = Inr (UARTOffFromKey (''uart'' @ [CHR ''1'']))"
      by (rule slot_absent [OF 3 rank_facts(1)]) simp
    moreover have "newUARTn ?m 2 = Inr (UARTOffFromKey (''uart'' @ [CHR ''2'']))"
      by (rule slot_absent [OF 3 rank_facts(2)]) simp
    moreover have "newUARTn ?m 4 = Inr (UARTOffFromKey (''uart'' @ [CHR ''4'']))"
      by (rule slot_absent [OF 3 rank_facts(4)]) simp
    ultimately show ?thesis
      using 3 by (simp add: NewUARTs_def UART1_def UART2_def UART3_def UART4_def)
  next
    case 4
    have "newUARTn ?m 4 = Inr uart"
      by (rule p [OF 4]) (simp_all only: 4 rank_facts)
    moreover have "newUARTn ?m 1 = Inr (UARTOffFromKey (''uart'' @ [CHR ''1'']))"
      by (rule slot_absent [OF 4 rank_facts(1)]) simp
    moreover have "newUARTn ?m 2 = Inr (UARTOffFromKey (''uart'' @ [CHR ''2'']))"
      by (rule slot_absent [OF 4 rank_facts(2)]) simp
    moreover have "newUARTn ?m 3 = Inr (UARTOffFromKey (''uart'' @ [CHR ''3'']))"
      by (rule slot_absent [OF 4 rank_facts(3)]) simp
    ultimately show ?thesis
      using 4 by (simp add: NewUARTs_def UART1_def UART2_def UART3_def UART4_def)
  qed
qed

theorem NewUARTs_vmInfo_roundtrip_witness:
  "NewUARTs (map_of (vmInfoPairs \<lparr>ComConfig = COM2, Type = UARTT16550A, Mode = UARTModeFile,
                                    ModeData = ''/tmp/uart2'', Key = UART2\<rparr>))
     = Inr [UARTOffFromKey UART1,
            \<lparr>ComConfig = COM2, Type = UARTT16550A, Mode = UARTModeFile,
               ModeData = ''/tmp/uart2'', Key = UART2\<rparr>,
            UARTOffFromKey UART3, UARTOffFromKey UART4]"
proof -
  let ?u = "\<lparr>ComConfig = COM2, Type = UARTT16550A, Mode = UARTModeFile,
             ModeData = ''/tmp/uart2'', Key = UART2\<rparr>"
  have "NewUARTs (map_of (vmInfoPairs ?u)) =
           Inr (map (\<lambda>k. if k = Key ?u then ?u else UARTOffFromKey k)
                  [UART1, UART2, UART3, UART4])"
    by (rule NewUARTs_vmInfo_roundtrip)
      (simp_all add: IsSupportedKey_def IsSupportedUARTType_def COM2_def
        UARTModeFile_def UARTModeDisconnected_def)
  then show ?thesis
    by (simp add: UART1_def UART2_def UART3_def UART4_def)
qed

text \<open>
  Claim C4 as stated fails. Read with the key/value pairs that the serializer
  \<open>commandParameters\<close> works on, the pairs of a COM2 UART in slot 2 are keyed \<open>--uart2\<close>,
  \<open>--uartmode2\<close>, \<open>--uarttype2\<close> and hold blank-separated values; \<open>NewUARTs\<close> finds none
  of its keys in them and returns four off slots. Read with the properties of the
  machine-readable dump, a file-mode UART whose path holds a comma is not decoded at all.
\<close>

theorem roundtrip_counterexample:
  "commandPairs \<lparr>ComConfig = COM2, Type = UARTT16550A, Mode = UARTModeFile,
                 ModeData = ''/tmp/uart2'', Key = UART2\<rparr>
     = [(''--uart2'', ''0x02f8 3''), (''--uartmode2'', ''file /tmp/uart2''),
        (''--uarttype2'', ''16550A'')]
   \<and> NewUARTs (map_of (commandPairs \<lparr>ComConfig = COM2, Type = UARTT16550A, Mode = UARTModeFile,
                                      ModeData = ''/tmp/uart2'', Key = UART2\<rparr>))
     = Inr [UARTOffFromKey UART1, UARTOffFromKey UART2, UARTOffFromKey UART3, UARTOffFromKey UART4]
   \<and> UARTOffFromKey UART2 \<noteq> \<lparr>ComConfig = COM2, Type = UARTT16550A, Mode = UARTModeFile,
                                 ModeData = ''/tmp/uart2'', Key = UART2\<rparr>
   \<and> NewUARTs (map_of (vmInfoPairs \<lparr>ComConfig = COM2, Type = UARTT16550A, Mode = UARTModeFile,
                                      ModeData = ''/tmp/a,b'', Key = UART2\<rparr>))
     = Inl ErrUnsupportedModeFormat"
proof -
  let ?u = "\<lparr>ComConfig = COM2, Type = UARTT16550A, Mode = UARTModeFile,
             ModeData = ''/tmp/uart2'', Key = UART2\<rparr>"
  let ?v = "\<lparr>ComConfig = COM2, Type = UARTT16550A, Mode = UARTModeFile,
             ModeData = ''/tmp/a,b'', Key = UART2\<rparr>"
  have h: "fmtHex04 760 = ''02f8''" "fmtDec 3 = ''3''" "fmtDec 2 = ''2''"
    by (simp_all add: fmtHex04_def fmtDec_def fmtBase.simps digitChar_def)
  have cp: "commandPairs ?u = [(''--uart2'', ''0x02f8 3''), (''--uartmode2'', ''file /tmp/uart2''),
        (''--uarttype2'', ''16550A'')]"
    by (simp add: commandPairs_def commandParameterUartN_def commandParameterUARTModeN_def
        commandParameterUARTTypeN_def ToRank_def UART1_def UART2_def IsOff_def COM2_def h
        UARTModeFile_def UARTModeDisconnected_def UARTT16550A_def)
  have k: "UARTKeyFromRank 1 = Inr UART1" "UARTKeyFromRank 2 = Inr UART2"
    "UARTKeyFromRank 3 = Inr UART3" "UARTKeyFromRank 4 = Inr UART4"
    by (simp_all add: UARTKeyFromRank_def)
  have a1: "newUARTn (map_of (commandPairs ?u)) 1 = Inr (UARTOffFromKey UART1)"
    by (rule newUARTn_absent [OF k(1)]) (unfold cp, simp add: UART1_def)
  have a2: "newUARTn (map_of (commandPairs ?u)) 2 = Inr (UARTOffFromKey UART2)"
    by (rule newUARTn_absent [OF k(2)]) (unfold cp, simp add: UART2_def)
  have a3: "newUARTn (map_of (commandPairs ?u)) 3 = Inr (UARTOffFromKey UART3)"
    by (rule newUARTn_absent [OF k(3)]) (unfold cp, simp add: UART3_def)
  have a4: "newUARTn (map_of (commandPairs ?u)) 4 = Inr (UARTOffFromKey UART4)"
    by (rule newUARTn_absent [OF k(4)]) (unfold cp, simp add: UART4_def)
  have dec: "NewUARTs (map_of (commandPairs ?u)) =
      Inr [UARTOffFromKey UART1, UARTOffFromKey UART2, UARTOffFromKey UART3, UARTOffFromKey UART4]"
    unfolding NewUARTs_def using a1 a2 a3 a4 by simp
  have ne: "UARTOffFromKey UART2 \<noteq> ?u"
    by (simp add: UARTOffFromKey_def UARTT16550A_def)
  have vp: "map_of (vmInfoPairs ?v) =
      [''uart2'' \<mapsto> toVMInfoValueUARTn COM2, ''uartmode2'' \<mapsto> ''file,/tmp/a,b'',
       ''uarttype2'' \<mapsto> ''16550A'']"
    by (rule ext)
      (simp add: vmInfoPairs_def UART2_def UARTModeFile_def UARTModeDisconnected_def UARTT16550A_def)
  have b1: "newUARTn (map_of (vmInfoPairs ?v)) 1 = Inr (UARTOffFromKey UART1)"
    by (rule newUARTn_absent [OF k(1)]) (unfold vp, simp add: UART1_def)
  have i1: "initFromVMInfoValue \<lparr>Port = 0, IRQ = 0\<rparr> (toVMInfoValueUARTn COM2) = Inr COM2"
    using initFromVMInfoValue_toVMInfoValueUARTn [of COM2 "\<lparr>Port = 0, IRQ = 0\<rparr>"]
    by (simp add: COM2_def)
  have b2: "newUARTn (map_of (vmInfoPairs ?v)) 2 = Inl ErrUnsupportedModeFormat"
    unfolding vp newUARTn_def k
    by (simp add: UART2_def UARTOffFromKey_def toVMInfoValueUARTn_not_off i1
        initUARTModeFromVMInfoMap_def ToRank_def UART1_def h UARTModeDisconnected_def)
  have bad: "NewUARTs (map_of (vmInfoPairs ?v)) = Inl ErrUnsupportedModeFormat"
    unfolding NewUARTs_def using b1 b2 by simp
  from cp dec ne bad show ?thesis
    by blast
qed

section \<open>Storage controller codec: the token unknown\<close>

lemma capacity_ok:
  assumes "0 \<le> n" and "n < 2 ^ 62"
  shows "\<not> sint (word_of_int (n * 2) :: 64 word) < 0"
proof -
  have "signed_take_bit 63 (n * 2) = n * 2"
    by (rule signed_take_bit_int_eq_self) (use assms in simp_all)
  then have "sint (word_of_int (n * 2) :: 64 word) = n * 2"
    unfolding signed_of_int by simp
  with assms show ?thesis
    by simp
qed

lemma capacity_negative: "sint (word_of_int (- 1 * 2) :: 64 word) < 0"
  by simp

lemma findStorageMedia_returns:
  assumes "0 \<le> n" and "n < 2 ^ 62"
  shows "\<exists>media. findStorageMedia name bus n m = Inr media"
  using capacity_ok [OF assms] by (simp add: findStorageMedia_def)

lemma ctrlsLoop_Inr:
  "ctrlsLoop m js acc = Inr ctrls \<Longrightarrow>
     set acc \<subseteq> set ctrls
     \<and> (\<forall>j \<in> set js. \<forall>nm. m (''storagecontrollername'' @ fmtDec j) = Some nm \<longrightarrow>
           (\<exists>sc. findStorageControllerByIndex nm (fmtDec j) m = Inr sc \<and> sc \<in> set ctrls))"
proof (induction js arbitrary: acc)
  case Nil
  then show ?case by simp
next
  case (Cons j js)
  show ?case
  proof (cases "m (''storagecontrollername'' @ fmtDec j)")
    case None
    with Cons.prems have "ctrlsLoop m js acc = Inr ctrls"
      by simp
    from Cons.IH [OF this] None show ?thesis
      by simp
  next
    case (Some nm)
    with Cons.prems obtain sc where
      sc: "findStorageControllerByIndex nm (fmtDec j) m = Inr sc"
      and rest: "ctrlsLoop m js (acc @ [sc]) = Inr ctrls"
      by (auto split: sum.splits)
    from Cons.IH [OF rest] Some sc show ?thesis
      by auto
  qed
qed

lemma ctrlsLoop_Inl:
  "ctrlsLoop m js acc = Inl e \<Longrightarrow>
     \<exists>j \<in> set js. \<exists>nm. m (''storagecontrollername'' @ fmtDec j) = Some nm
        \<and> findStorageControllerByIndex nm (fmtDec j) m = Inl e"
proof (induction js arbitrary: acc)
  case Nil
  then show ?case by simp
next
  case (Cons j js)
  show ?case
  proof (cases "m (''storagecontrollername'' @ fmtDec j)")
    case None
    with Cons.prems have "ctrlsLoop m js acc = Inl e"
      by simp
    from Cons.IH [OF this] show ?thesis
      by simp
  next
    case (Some nm)
    show ?thesis
    proof (cases "findStorageControllerByIndex nm (fmtDec j) m")
      case (Inl e')
      with Some Cons.prems have "e' = e"
        by simp
      with Inl Some show ?thesis
        by auto
    next
      case (Inr sc)
      with Some Cons.prems have "ctrlsLoop m js (acc @ [sc]) = Inl e"
        by simp
      from Cons.IH [OF this] show ?thesis
        by auto
    qed
  qed
qed

text \<open>
  Claim C7. For every property map that holds \<open>storagecontrollername<i>\<close> for an index
  \<open>i\<close> from 0 to 7, \<open>storagecontrollertype<i>\<close> equal to \<open>unknown\<close> and a port count that
  parses to a count (a number that is not negative, and below \<open>2 ^ 62\<close> so that the
  capacity of the device list does not overflow), the controller is decoded without an
  error, with system bus and chipset both the string \<open>unknown\<close>. It is an element of every
  list that \<open>NewStorageControllersFromProps\<close> returns for the map, and an error of
  \<open>NewStorageControllersFromProps\<close> for the map is the error of another controller.
\<close>

theorem unknown_controller_type_is_data:
  assumes i: "i < 8"
    and nm: "m (''storagecontrollername'' @ fmtDec i) = Some name"
    and ty: "m (''storagecontrollertype'' @ fmtDec i) = Some ''unknown''"
    and pc: "m (''storagecontrollerportcount'' @ fmtDec i) = Some portCountStr"
    and at: "Atoi portCountStr = Inr n"
    and n0: "0 \<le> n" and n62: "n < 2 ^ 62"
  shows "vmInfogStrorageControllerTypeToBusAndChipset ''unknown'' = Inr (''unknown'', ''unknown'')
     \<and> (\<exists>sc. findStorageControllerByIndex name (fmtDec i) m = Inr sc
           \<and> Name sc = name \<and> SysBus sc = ''unknown'' \<and> Chipset sc = ''unknown''
           \<and> (\<forall>ctrls. NewStorageControllersFromProps m = Inr ctrls \<longrightarrow> sc \<in> set ctrls))
     \<and> (\<forall>e. NewStorageControllersFromProps m = Inl e \<longrightarrow>
           (\<exists>j<8. j \<noteq> i \<and> (\<exists>nm'. m (''storagecontrollername'' @ fmtDec j) = Some nm'
                \<and> findStorageControllerByIndex nm' (fmtDec j) m = Inl e)))"
proof -
  have t: "vmInfogStrorageControllerTypeToBusAndChipset ''unknown'' = Inr (''unknown'', ''unknown'')"
    by (simp add: vmInfogStrorageControllerTypeToBusAndChipset_def)
  from findStorageMedia_returns [OF n0 n62] obtain media where
    media: "findStorageMedia name ''unknown'' n m = Inr media"
    by blast
  define sc where "sc = \<lparr>Name = name, SysBus = ''unknown'', Ports = word_of_int n,
      Chipset = ''unknown'', HostIOCache = False,
      Bootable = (getStr m (''storagecontrollerbootable'' @ fmtDec i) = ''on''), Devices = media\<rparr>"
  have f: "findStorageControllerByIndex name (fmtDec i) m = Inr sc"
    unfolding findStorageControllerByIndex_def
    using ty pc by (simp add: getStr_def at t media sc_def)
  have fields: "Name sc = name" "SysBus sc = ''unknown''" "Chipset sc = ''unknown''"
    by (simp_all add: sc_def)
  have mem: "\<forall>ctrls. NewStorageControllersFromProps m = Inr ctrls \<longrightarrow> sc \<in> set ctrls"
  proof (intro allI impI)
    fix ctrls
    assume "NewStorageControllersFromProps m = Inr ctrls"
    then have "ctrlsLoop m [0 ..< 8] [] = Inr ctrls"
      by (simp only: NewStorageControllersFromProps_def)
    moreover have "i \<in> set [0 ..< 8]"
      using i by simp
    ultimately obtain sc' where "findStorageControllerByIndex name (fmtDec i) m = Inr sc'"
      and "sc' \<in> set ctrls"
      using ctrlsLoop_Inr nm by blast
    with f show "sc \<in> set ctrls"
      by simp
  qed
  have err: "\<forall>e. NewStorageControllersFromProps m = Inl e \<longrightarrow>
           (\<exists>j<8. j \<noteq> i \<and> (\<exists>nm'. m (''storagecontrollername'' @ fmtDec j) = Some nm'
                \<and> findStorageControllerByIndex nm' (fmtDec j) m = Inl e))"
  proof (intro allI impI)
    fix e
    assume "NewStorageControllersFromProps m = Inl e"
    then have "ctrlsLoop m [0 ..< 8] [] = Inl e"
      by (simp only: NewStorageControllersFromProps_def)
    from ctrlsLoop_Inl [OF this] obtain j nm' where
      j: "j \<in> set [0 ..< 8]" "m (''storagecontrollername'' @ fmtDec j) = Some nm'"
        "findStorageControllerByIndex nm' (fmtDec j) m = Inl e"
      by blast
    have "j \<noteq> i"
    proof
      assume "j = i"
      with j nm f show False
        by simp
    qed
    moreover from j(1) have "j < 8"
      by simp
    ultimately show "\<exists>j<8. j \<noteq> i \<and> (\<exists>nm'. m (''storagecontrollername'' @ fmtDec j) = Some nm'
                \<and> findStorageControllerByIndex nm' (fmtDec j) m = Inl e)"
      using j(2,3) by blast
  qed
  from t f fields mem err show ?thesis
    by blast
qed

lemma upt8: "[0 ..< 8] = [0, 1, 2, 3, 4, 5, 6, 7 :: nat]"
  by (simp add: upt_rec)

lemma fmtDec_digits:
  "fmtDec 0 = ''0''" "fmtDec (Suc 0) = ''1''" "fmtDec 2 = ''2''" "fmtDec 3 = ''3''" "fmtDec 4 = ''4''"
  "fmtDec 5 = ''5''" "fmtDec 6 = ''6''" "fmtDec 7 = ''7''"
  by (simp_all add: fmtDec_def fmtBase.simps digitChar_def)

theorem unknown_controller_type_is_data_witness:
  "(\<exists>sc. findStorageControllerByIndex ''NVMe'' ''5''
            [''storagecontrollername5'' \<mapsto> ''NVMe'', ''storagecontrollertype5'' \<mapsto> ''unknown'',
             ''storagecontrollerportcount5'' \<mapsto> ''1'', ''storagecontrollerbootable5'' \<mapsto> ''on'']
          = Inr sc \<and> SysBus sc = ''unknown'' \<and> Chipset sc = ''unknown'')
   \<and> NewStorageControllersFromProps
        [''storagecontrollername5'' \<mapsto> ''NVMe'', ''storagecontrollertype5'' \<mapsto> ''unknown'',
         ''storagecontrollerportcount5'' \<mapsto> ''1'', ''storagecontrollerbootable5'' \<mapsto> ''on'']
       = Inr [\<lparr>Name = ''NVMe'', SysBus = ''unknown'', Ports = 1, Chipset = ''unknown'',
               HostIOCache = False, Bootable = True, Devices = []\<rparr>]"
proof -
  let ?m = "[''storagecontrollername5'' \<mapsto> ''NVMe'', ''storagecontrollertype5'' \<mapsto> ''unknown'',
             ''storagecontrollerportcount5'' \<mapsto> ''1'', ''storagecontrollerbootable5'' \<mapsto> ''on'']"
  have at: "Atoi ''1'' = Inr 1"
    by (simp add: Atoi_def ParseUint_def digitVal_def)
  have five: "fmtDec 5 = ''5''"
    by (rule fmtDec_digits)
  have h: "(5 :: nat) < 8"
    "?m (''storagecontrollername'' @ fmtDec 5) = Some ''NVMe''"
    "?m (''storagecontrollertype'' @ fmtDec 5) = Some ''unknown''"
    "?m (''storagecontrollerportcount'' @ fmtDec 5) = Some ''1''"
    "(0 :: int) \<le> 1" "(1 :: int) < 2 ^ 62"
    by (simp_all add: five)
  from unknown_controller_type_is_data [OF h(1-4) at h(5,6)] obtain sc where
    sc: "findStorageControllerByIndex ''NVMe'' (fmtDec 5) ?m = Inr sc"
      "SysBus sc = ''unknown''" "Chipset sc = ''unknown''"
    by blast
  have media: "findStorageMedia ''NVMe'' ''unknown'' 1 ?m = Inr []"
    by (simp add: findStorageMedia_def maxDevicePerPort_def SysBusIDE_def SysBusFloppy_def
        mediumAt_def fmtDec_digits)
  have f: "findStorageControllerByIndex ''NVMe'' ''5'' ?m =
      Inr \<lparr>Name = ''NVMe'', SysBus = ''unknown'', Ports = 1, Chipset = ''unknown'',
               HostIOCache = False, Bootable = True, Devices = []\<rparr>"
    by (simp add: findStorageControllerByIndex_def getStr_def at media
        vmInfogStrorageControllerTypeToBusAndChipset_def Let_def)
  have all: "NewStorageControllersFromProps ?m =
      Inr [\<lparr>Name = ''NVMe'', SysBus = ''unknown'', Ports = 1, Chipset = ''unknown'',
               HostIOCache = False, Bootable = True, Devices = []\<rparr>]"
    unfolding NewStorageControllersFromProps_def upt8
    by (simp add: fmtDec_digits f)
  from sc all show ?thesis
    unfolding five by blast
qed

text \<open>
  A port count that parses to a negative number is outside the hypotheses of the theorem
  above: the capacity given to \<open>make\<close> is negative and \<open>findStorageMedia\<close> panics.
\<close>

lemma negative_port_count_panics:
  "findStorageControllerByIndex ''NVMe'' ''5''
     [''storagecontrollername5'' \<mapsto> ''NVMe'', ''storagecontrollertype5'' \<mapsto> ''unknown'',
      ''storagecontrollerportcount5'' \<mapsto> ''-1'']
   = Inl RuntimePanic"
proof -
  have at: "Atoi ''-1'' = Inr (- 1)"
    by (simp add: Atoi_def ParseUint_def digitVal_def)
  show ?thesis
    by (simp add: findStorageControllerByIndex_def getStr_def at findStorageMedia_def
        vmInfogStrorageControllerTypeToBusAndChipset_def Let_def)
qed

section \<open>Colon-block listings: NATNets and DHCPs\<close>

lemma rawLines_l1: "rawLines ''Name: sayanat\<newline>Enabled: Yes'' = [''Name: sayanat'', ''Enabled: Yes'']"
  by (simp add: rawLines_def)

lemma re1: "reColonLine ''Name: sayanat'' = Some (''Name'', ''sayanat'')"
  by (simp add: reColonLine_def isSpaceRE_def)

lemma re2: "reColonLine ''Enabled: Yes'' = Some (''Enabled'', ''Yes'')"
  by (simp add: reColonLine_def isSpaceRE_def)

lemma re3: "reColonLine ''Enabled: No'' = Some (''Enabled'', ''No'')"
  by (simp add: reColonLine_def isSpaceRE_def)

text \<open>
  Claim C2, the code at a NAT network listing of one record. Without a blank line behind
  the record, \<open>NATNets\<close> returns the empty map: the record is stored only when a blank
  line is read, and nothing is stored when the text ends. With the blank line the record
  is in the map. (\<open>DHCPs\<close> stores a record when its name is read:
  \<open>DHCPs_keeps_every_named_record\<close> below.)
\<close>

theorem NATNets_drops_last_record:
  "NATNets lib ''Name: sayanat\<newline>Enabled: Yes'' = Inr Map.empty
   \<and> NATNets lib ''Name: sayanat\<newline>Enabled: Yes\<newline>\<newline>''
       = Inr [''sayanat'' \<mapsto> \<lparr>NameNat = ''sayanat'', IPv4Nat = \<lparr>IP = [], Mask = []\<rparr>,
                 IPv6Nat = \<lparr>IP = [], Mask = []\<rparr>, DHCPNat = False,
                 EnabledNat = (''Yes'' = stringYes lib)\<rparr>]"
proof
  have "natLoop lib [''Name: sayanat'', ''Enabled: Yes''] (Map.empty, zeroNATNet)
      = Inr (Map.empty, zeroNATNet\<lparr>NameNat := ''sayanat'', EnabledNat := (''Yes'' = stringYes lib)\<rparr>)"
    by (simp add: natLine_def dropCR_def MaxScanTokenSize_def re1 re2)
  then show "NATNets lib ''Name: sayanat\<newline>Enabled: Yes'' = Inr Map.empty"
    by (simp add: NATNets_def rawLines_def)
next
  have "natLoop lib [''Name: sayanat'', ''Enabled: Yes'', []] (Map.empty, zeroNATNet)
      = Inr ([''sayanat'' \<mapsto> zeroNATNet\<lparr>NameNat := ''sayanat'', EnabledNat := (''Yes'' = stringYes lib)\<rparr>],
             zeroNATNet)"
    by (simp add: natLine_def dropCR_def MaxScanTokenSize_def re1 re2)
  then show "NATNets lib ''Name: sayanat\<newline>Enabled: Yes\<newline>\<newline>''
       = Inr [''sayanat'' \<mapsto> \<lparr>NameNat = ''sayanat'', IPv4Nat = \<lparr>IP = [], Mask = []\<rparr>,
                 IPv6Nat = \<lparr>IP = [], Mask = []\<rparr>, DHCPNat = False,
                 EnabledNat = (''Yes'' = stringYes lib)\<rparr>]"
    by (simp add: NATNets_def rawLines_def zeroNATNet_def)
qed

text \<open>
  Claim C3, the code at a NAT network listing of two records with the same name:
  \<open>NATNets\<close> returns a map, in which the second record has taken the place of the first.
  (\<open>DHCPs\<close> returns an error: \<open>DHCPs_duplicate_name_fails\<close> below.)
\<close>

theorem NATNets_duplicate_name_overwrites:
  "NATNets lib ''Name: sayanat\<newline>Enabled: Yes\<newline>\<newline>Name: sayanat\<newline>Enabled: No\<newline>\<newline>''
       = Inr [''sayanat'' \<mapsto> \<lparr>NameNat = ''sayanat'', IPv4Nat = \<lparr>IP = [], Mask = []\<rparr>,
                 IPv6Nat = \<lparr>IP = [], Mask = []\<rparr>, DHCPNat = False,
                 EnabledNat = (''No'' = stringYes lib)\<rparr>]"
proof -
  have "natLoop lib [''Name: sayanat'', ''Enabled: Yes'', [], ''Name: sayanat'', ''Enabled: No'', []]
          (Map.empty, zeroNATNet)
      = Inr ([''sayanat'' \<mapsto> zeroNATNet\<lparr>NameNat := ''sayanat'', EnabledNat := (''No'' = stringYes lib)\<rparr>],
             zeroNATNet)"
    by (simp add: natLine_def dropCR_def MaxScanTokenSize_def re1 re2 re3)
  then show ?thesis
    by (simp add: NATNets_def rawLines_def zeroNATNet_def)
qed

lemma reColonLine_Nil: "reColonLine [] = None"
  by (simp add: reColonLine_def)

lemma byName_updCurrent: "byName (updCurrent f st) = byName st"
  by (simp add: updCurrent_def)

lemma dhcpLine_dom:
  assumes "dhcpLine lib st line = Inr st'"
  shows "dom (byName st) \<subseteq> dom (byName st')"
  using assms
  by (auto simp: dhcpLine_def byName_updCurrent Let_def split: if_splits option.splits prod.splits)

lemma dhcpLine_name:
  assumes "dhcpLine lib st line = Inr st'" and "reColonLine line = Some (k, v)"
    and "ToLower k = ''networkname''"
  shows "v \<in> dom (byName st')"
proof -
  from assms(2) have "line \<noteq> []"
    using reColonLine_Nil by auto
  with assms show ?thesis
    by (auto simp: dhcpLine_def byName_updCurrent Let_def split: if_splits)
qed

lemma dhcpLine_duplicate:
  assumes "reColonLine line = Some (k, v)" and "ToLower k = ''networkname''"
    and "v \<in> dom (byName st)"
  shows "dhcpLine lib st line = Inl ErrDHCPAlreadyParsed"
proof -
  from assms(1) have "line \<noteq> []"
    using reColonLine_Nil by auto
  with assms show ?thesis
    by (auto simp: dhcpLine_def Let_def)
qed

lemma dhcpLoop_append:
  "dhcpLoop lib (xs @ ys) st =
     (case dhcpLoop lib xs st of Inl e \<Rightarrow> Inl e | Inr st' \<Rightarrow> dhcpLoop lib ys st')"
  by (induction xs arbitrary: st) (simp_all split: sum.splits)

lemma dhcpLoop_dom:
  assumes "dhcpLoop lib raws st = Inr st'"
  shows "dom (byName st) \<subseteq> dom (byName st')
         \<and> (\<forall>raw \<in> set raws. \<forall>v. nameLine raw v \<longrightarrow> v \<in> dom (byName st'))"
  using assms
proof (induction raws arbitrary: st)
  case Nil
  then show ?case by simp
next
  case (Cons raw raws)
  from Cons.prems obtain st1 where
    s1: "dhcpLine lib st (dropCR raw) = Inr st1" and s2: "dhcpLoop lib raws st1 = Inr st'"
    by (auto split: if_splits sum.splits)
  note ih = Cons.IH [OF s2]
  have d1: "dom (byName st) \<subseteq> dom (byName st1)"
    using s1 by (rule dhcpLine_dom)
  have "\<forall>v. nameLine raw v \<longrightarrow> v \<in> dom (byName st1)"
    using dhcpLine_name [OF s1] by (auto simp: nameLine_def split: option.splits)
  with ih d1 show ?case
    by (simp add: subset_iff)
qed

lemma dhcpLoop_duplicate:
  assumes "nameLine raw1 v" and "nameLine raw2 v"
  shows "\<exists>e. dhcpLoop lib (xs @ raw1 # ys @ raw2 # zs) st = Inl e"
proof (cases "dhcpLoop lib (xs @ raw1 # ys) st")
  case (Inl e)
  have "dhcpLoop lib ((xs @ raw1 # ys) @ raw2 # zs) st = Inl e"
    unfolding dhcpLoop_append [of lib "xs @ raw1 # ys"] Inl by simp
  then show ?thesis
    by auto
next
  case (Inr st1)
  from dhcpLoop_dom [OF Inr] assms(1) have v: "v \<in> dom (byName st1)"
    by auto
  from assms(2) obtain k where "reColonLine (dropCR raw2) = Some (k, v)" "ToLower k = ''networkname''"
    by (auto simp: nameLine_def split: option.splits)
  then have "dhcpLine lib st1 (dropCR raw2) = Inl ErrDHCPAlreadyParsed"
    using v by (rule dhcpLine_duplicate)
  then have "\<exists>e. dhcpLoop lib (raw2 # zs) st1 = Inl e"
    by simp
  then obtain e where "dhcpLoop lib (raw2 # zs) st1 = Inl e"
    by blast
  then have "dhcpLoop lib ((xs @ raw1 # ys) @ raw2 # zs) st = Inl e"
    unfolding dhcpLoop_append [of lib "xs @ raw1 # ys"] Inr by simp
  then show ?thesis
    by auto
qed

text \<open>
  \<open>DHCPs\<close>: when a listing is parsed without an error, every name that a line of the
  listing gives is a key of the returned map, wherever the blank lines are; so the last
  record is there also when no blank line follows it.
\<close>

theorem DHCPs_keeps_every_named_record:
  assumes "DHCPs lib out = Inr res" and "raw \<in> set (rawLines out)" and "nameLine raw v"
  shows "\<exists>d. res v = Some d"
proof -
  from assms(1) obtain st where
    st: "dhcpLoop lib (rawLines out) \<lparr>objs = [zeroDHCP], byName = Map.empty, current = 0\<rparr> = Inr st"
    and res: "res = (\<lambda>name. map_option (\<lambda>a. objs st ! a) (byName st name))"
    by (auto simp: DHCPs_def split: sum.splits)
  from dhcpLoop_dom [OF st] assms(2,3) have "v \<in> dom (byName st)"
    by blast
  then show ?thesis
    unfolding res by auto
qed

text \<open>
  \<open>DHCPs\<close>: a listing in which two lines give the same name is not parsed; an error is
  returned.
\<close>

theorem DHCPs_duplicate_name_fails:
  assumes "rawLines out = xs @ raw1 # ys @ raw2 # zs" and "nameLine raw1 v" and "nameLine raw2 v"
  shows "\<exists>e. DHCPs lib out = Inl e"
proof -
  from dhcpLoop_duplicate [OF assms(2,3)] obtain e where
    "dhcpLoop lib (xs @ raw1 # ys @ raw2 # zs) \<lparr>objs = [zeroDHCP], byName = Map.empty, current = 0\<rparr> = Inl e"
    by blast
  then show ?thesis
    by (simp add: DHCPs_def assms(1))
qed

lemma ToLower_NetworkName: "ToLower ''NetworkName'' = ''networkname''"
  by (simp add: ToLower_def)

lemma nameLine_n: "nameLine ''NetworkName: n1'' ''n1''" "nameLine ''NetworkName: n2'' ''n2''"
  by (simp_all add: nameLine_def dropCR_def reColonLine_def isSpaceRE_def ToLower_NetworkName)

theorem DHCPs_keeps_every_named_record_witness:
  "\<forall>lib. \<exists>res d. DHCPs lib ''NetworkName: n1\<newline>Enabled: Yes\<newline>\<newline>NetworkName: n2\<newline>Enabled: No''
          = Inr res \<and> res ''n2'' = Some d"
proof
  fix lib
  let ?out = "''NetworkName: n1\<newline>Enabled: Yes\<newline>\<newline>NetworkName: n2\<newline>Enabled: No''"
  have rl: "rawLines ?out = [''NetworkName: n1'', ''Enabled: Yes'', [], ''NetworkName: n2'', ''Enabled: No'']"
    by (simp add: rawLines_def)
  have r: "reColonLine ''NetworkName: n1'' = Some (''NetworkName'', ''n1'')"
    "reColonLine ''NetworkName: n2'' = Some (''NetworkName'', ''n2'')"
    "reColonLine ''Enabled: Yes'' = Some (''Enabled'', ''Yes'')"
    "reColonLine ''Enabled: No'' = Some (''Enabled'', ''No'')"
    by (simp_all add: reColonLine_def isSpaceRE_def)
  have tl: "ToLower ''Enabled'' = ''enabled''"
    by (simp add: ToLower_def)
  have "\<exists>st. dhcpLoop lib (rawLines ?out) \<lparr>objs = [zeroDHCP], byName = Map.empty, current = 0\<rparr> = Inr st"
    unfolding rl
    by (simp add: dhcpLine_def dropCR_def MaxScanTokenSize_def r tl ToLower_NetworkName updCurrent_def)
  then obtain res where res: "DHCPs lib ?out = Inr res"
    by (auto simp: DHCPs_def)
  have "''NetworkName: n2'' \<in> set (rawLines ?out)"
    unfolding rl by simp
  from DHCPs_keeps_every_named_record [OF res this nameLine_n(2)] res
  show "\<exists>res d. DHCPs lib ?out = Inr res \<and> res ''n2'' = Some d"
    by blast
qed

theorem DHCPs_duplicate_name_fails_witness:
  "\<forall>lib. \<exists>e. DHCPs lib ''NetworkName: n1\<newline>Enabled: Yes\<newline>\<newline>NetworkName: n1\<newline>'' = Inl e"
proof
  fix lib
  let ?out = "''NetworkName: n1\<newline>Enabled: Yes\<newline>\<newline>NetworkName: n1\<newline>''"
  have rl: "rawLines ?out = [] @ ''NetworkName: n1'' # [''Enabled: Yes'', []] @ ''NetworkName: n1'' # []"
    by (simp add: rawLines_def)
  show "\<exists>e. DHCPs lib ?out = Inl e"
    by (rule DHCPs_duplicate_name_fails [OF rl nameLine_n(1) nameLine_n(1)])
qed

end
